theory Spec2Isabelle
  imports Main "HOL-Library.Word"
begin

unbundle bit_operations_syntax

section \<open>Native types and constants of \<open>src/lib/gosu-process-name.js\<close>\<close>

text \<open>
  \<open>DWord\<close> is \<open>ref.types.ulong\<close>, 4 bytes on the Windows hosts the library binds to.
  \<open>Handle\<close> is a pointer to \<open>void\<close>: an address, with \<open>0\<close> for \<open>NULL\<close>.
  \<open>sizeof_pointer\<close> is \<open>ref.sizeof.pointer\<close> on a 64-bit host.  A buffer is a list of bytes,
  \<open>char\<close> in HOL.  A JavaScript string is a list of UTF-16 code units.
\<close>

type_synonym DWord = "32 word"
type_synonym Handle = nat
type_synonym JSString = "16 word list"

definition DWord_size :: nat where
  "DWord_size = 4"

definition sizeof_pointer :: nat where
  "sizeof_pointer = 8"

definition NULL :: Handle where
  "NULL = 0"

definition NUL :: char where
  "NUL = CHR 0x00"

definition QUERY_SIZE :: nat where
  "QUERY_SIZE = 2048"

definition MAX_PROCESS_NAME_LENGTH :: nat where
  "MAX_PROCESS_NAME_LENGTH = 32"

definition PROCESS_QUERY_INFORMATION :: DWord where
  "PROCESS_QUERY_INFORMATION = 0x0400"

definition PROCESS_VM_READ :: DWord where
  "PROCESS_VM_READ = 0x0010"

section \<open>The host\<close>

text \<open>
  The four native entry points and the services of the runtime and of the libraries \<open>ffi\<close>,
  \<open>ref\<close> and \<open>ref-array\<close> are not code of the repository: they are parameters.  A host
  answers each native call from its own state \<open>'w\<close> and returns the next state, so a process
  table that changes between two calls, or a test double that counts its calls, is a host
  too.
  \<^item> \<open>EnumProcesses cb s\<close>: the identifiers the system has to report when asked with a buffer
    of \<open>cb\<close> bytes.
  \<^item> \<open>OpenProcess access inherit pid s\<close>: the handle, \<open>NULL\<close> when the process cannot be opened.
  \<^item> \<open>EnumProcessModules h cb s\<close>: the module handles of the process, \<open>None\<close> on failure.
  \<^item> \<open>K32GetModuleBaseNameA h m nSize s\<close>: the bytes the system stores from the start of the
    buffer it is given; none when it fails.  Whether it cuts a long name, and whether it ends
    what it stores with a \<open>NUL\<close>, is the system's.
  \<^item> \<open>allocates n s\<close>: whether the runtime allocates an array of \<open>n\<close> bytes.
  \<^item> \<open>memory_after s\<close>: the bytes that lie in memory behind the name buffer, up to the
    first \<open>NUL\<close> among them.
  \<^item> \<open>utf8\<close>: the UTF-8 decoder of \<open>ref.readCString\<close>, from bytes to a JavaScript string.
\<close>

record 'w os =
  EnumProcesses :: "DWord \<Rightarrow> 'w \<Rightarrow> DWord list \<times> 'w"
  OpenProcess :: "DWord \<Rightarrow> 8 word \<Rightarrow> DWord \<Rightarrow> 'w \<Rightarrow> Handle \<times> 'w"
  EnumProcessModules :: "Handle \<Rightarrow> nat \<Rightarrow> 'w \<Rightarrow> Handle list option \<times> 'w"
  K32GetModuleBaseNameA :: "Handle \<Rightarrow> Handle \<Rightarrow> nat \<Rightarrow> 'w \<Rightarrow> string \<times> 'w"
  allocates :: "nat \<Rightarrow> 'w \<Rightarrow> bool"
  memory_after :: "'w \<Rightarrow> string"
  utf8 :: "string \<Rightarrow> JSString"

text \<open>
  What the program can touch: the state of the host, the native calls made so far (oldest
  first) and the process handles that were handed out and not closed.
\<close>

datatype native_call =
    Call_EnumProcesses DWord
  | Call_OpenProcess DWord
  | Call_EnumProcessModules Handle
  | Call_K32GetModuleBaseNameA Handle Handle nat

record 'w world =
  os_state :: 'w
  calls :: "native_call list"
  open_handles :: "Handle list"

text \<open>
  The errors the program can raise, each with the number of bytes at fault: the runtime
  refuses to allocate an array, or \<open>ffi\<close> refuses to pass as a \<open>DWord\<close> a number that is not
  below \<open>2 ^ 32\<close>.  The source catches nothing, so an error ends the call that raises it
  and every caller up to the program's.
\<close>

datatype error =
    Allocation_failed nat
  | Out_of_bounds nat

subsection \<open>The bindings \<open>psapi\<close> and \<open>kernel32\<close>\<close>

text \<open>
  A JavaScript number passed where the binding declares a \<open>DWord\<close> (an unsigned long of 32
  bits).
\<close>

definition marshal_DWord :: "nat \<Rightarrow> error + DWord" where
  "marshal_DWord n = (if n < 2 ^ 32 then Inr (word_of_nat n) else Inl (Out_of_bounds n))"

text \<open>
  \<open>psapi.EnumProcesses(aProcesses, cb, cbNeeded)\<close>: \<open>cb\<close> is passed as a \<open>DWord\<close>.  The system
  stores as many identifiers as fit in \<open>cb\<close> bytes at the start of the array and stores the
  number of bytes it wrote in \<open>cbNeeded\<close>.  The result is the array and \<open>cbNeeded\<close> after the
  call.
\<close>

definition psapi_EnumProcesses ::
  "'w os \<Rightarrow> DWord list \<Rightarrow> nat \<Rightarrow> 'w world \<Rightarrow> (error + DWord list \<times> DWord) \<times> 'w world" where
  "psapi_EnumProcesses os aProcesses cb w =
     (case marshal_DWord cb of
        Inl e \<Rightarrow> (Inl e, w)
      | Inr cb' \<Rightarrow>
          (case EnumProcesses os cb' (os_state w) of (pids, s') \<Rightarrow>
             let written = take (unat cb' div DWord_size) pids
             in (Inr (written @ drop (length written) aProcesses,
                      word_of_nat (DWord_size * length written)),
                 w\<lparr>os_state := s', calls := calls w @ [Call_EnumProcesses cb']\<rparr>)))"

text \<open>
  \<open>kernel32.OpenProcess(access, inherit, pid)\<close>: a handle that is not \<open>NULL\<close> is open from
  now on.
\<close>

definition kernel32_OpenProcess ::
  "'w os \<Rightarrow> DWord \<Rightarrow> 8 word \<Rightarrow> DWord \<Rightarrow> 'w world \<Rightarrow> Handle \<times> 'w world" where
  "kernel32_OpenProcess os access inherit pid w =
     (case OpenProcess os access inherit pid (os_state w) of (h, s') \<Rightarrow>
        (h, w\<lparr>os_state := s',
              calls := calls w @ [Call_OpenProcess pid],
              open_handles := (if h = NULL then open_handles w else h # open_handles w)\<rparr>))"

text \<open>
  \<open>psapi.EnumProcessModules(hProcess, hMod, cb, cbNeeded)\<close>: on success the system stores
  as many module handles as fit in \<open>cb\<close> bytes at the start of \<open>hMod\<close>.  The result is the
  \<open>Bool\<close> (a byte) and the array after the call.  The byte count is the constant
  \<open>ref.sizeof.pointer\<close>, within the range of a \<open>DWord\<close>.
\<close>

definition psapi_EnumProcessModules ::
  "'w os \<Rightarrow> Handle \<Rightarrow> Handle list \<Rightarrow> nat \<Rightarrow> 'w world \<Rightarrow> (8 word \<times> Handle list) \<times> 'w world" where
  "psapi_EnumProcessModules os hProcess hMod cb w =
     (case EnumProcessModules os hProcess cb (os_state w) of (r, s') \<Rightarrow>
        let w' = w\<lparr>os_state := s', calls := calls w @ [Call_EnumProcessModules hProcess]\<rparr>
        in (case r of
              None \<Rightarrow> ((0, hMod), w')
            | Some mods \<Rightarrow>
                let written = take (cb div sizeof_pointer) mods
                in ((1, written @ drop (length written) hMod), w')))"

text \<open>
  \<open>kernel32.K32GetModuleBaseNameA(hProcess, hModule, lpBaseName, nSize)\<close>: the bytes the
  system stores replace the start of the buffer, which keeps its length.  The result is the
  buffer after the call; the program ignores the returned length.  The size is the
  constant 32, within the range of a \<open>DWord\<close>.
\<close>

definition kernel32_K32GetModuleBaseNameA ::
  "'w os \<Rightarrow> Handle \<Rightarrow> Handle \<Rightarrow> string \<Rightarrow> nat \<Rightarrow> 'w world \<Rightarrow> string \<times> 'w world" where
  "kernel32_K32GetModuleBaseNameA os hProcess hModule lpBaseName nSize w =
     (case K32GetModuleBaseNameA os hProcess hModule nSize (os_state w) of (stored, s') \<Rightarrow>
        (take (length lpBaseName) (stored @ drop (length stored) lpBaseName),
         w\<lparr>os_state := s',
           calls := calls w @ [Call_K32GetModuleBaseNameA hProcess hModule nSize]\<rparr>))"

text \<open>
  \<open>ref.readCString(buffer, 0)\<close>: the bytes from the start of the buffer to the first \<open>NUL\<close>
  in memory, which lies behind the buffer when the buffer holds none, decoded as UTF-8.
\<close>

definition readCString :: "'w os \<Rightarrow> string \<Rightarrow> 'w world \<Rightarrow> JSString" where
  "readCString os buffer w =
     utf8 os (takeWhile (\<lambda>c. c \<noteq> NUL) (buffer @ memory_after os (os_state w)))"

text \<open>
  The value of a pointer that \<open>ffi\<close> returns is a \<open>Buffer\<close> object holding the address, and an
  object is truthy in \<open>if (hProcess)\<close> whatever address it holds, \<open>NULL\<close> too.
\<close>

definition truthy_pointer :: "Handle \<Rightarrow> bool" where
  "truthy_pointer h = True"

section \<open>The process-ID enumerator\<close>

text \<open>
  \<open>_retrieveNProcesses(n)\<close>: one enumeration into a fresh array of \<open>n\<close> entries; the result
  is the array and the number of entries the system wrote.  It raises when the array is not
  allocated or its size in bytes is not passed.
\<close>

definition retrieveNProcesses ::
  "'w os \<Rightarrow> nat \<Rightarrow> 'w world \<Rightarrow> (error + DWord list \<times> nat) \<times> 'w world" where
  "retrieveNProcesses os n w =
     (if allocates os (DWord_size * n) (os_state w) then
        (let aProcesses = replicate n 0
         in case psapi_EnumProcesses os aProcesses (DWord_size * n) w of
              (Inl e, w') \<Rightarrow> (Inl e, w')
            | (Inr (aProcesses', cbNeeded), w') \<Rightarrow>
                (Inr (aProcesses', unat cbNeeded div DWord_size), w'))
      else (Inl (Allocation_failed (DWord_size * n)), w))"

text \<open>
  The \<open>do ... while\<close> loop of \<open>getProcessIDList\<close>.  Entered with \<open>expectedProcessNum = 0\<close> it
  need not end, so it is a partial function: \<open>None\<close> is the loop that never ends.
\<close>

partial_function (option) getProcessIDList_loop ::
  "'w os \<Rightarrow> nat \<Rightarrow> 'w world \<Rightarrow> ((error + DWord list) \<times> 'w world) option" where
  "getProcessIDList_loop os expectedProcessNum w =
     (let expectedProcessNum' = expectedProcessNum * 2
      in case retrieveNProcesses os expectedProcessNum' w of
           (Inl e, w') \<Rightarrow> Some (Inl e, w')
         | (Inr (aProcesses, processNum), w') \<Rightarrow>
             if processNum = expectedProcessNum'
             then getProcessIDList_loop os expectedProcessNum' w'
             else Some (Inr (take processNum aProcesses), w'))"

declare getProcessIDList_loop.simps [code]

definition getProcessIDList ::
  "'w os \<Rightarrow> 'w world \<Rightarrow> ((error + DWord list) \<times> 'w world) option" where
  "getProcessIDList os w = getProcessIDList_loop os (QUERY_SIZE div 2) w"

section \<open>The process-name resolver\<close>

text \<open>
  \<open>getProcessName(pid)\<close>: \<open>None\<close> is JavaScript's \<open>undefined\<close>, the value of a call that
  falls off the end of the function.  The arrays it allocates hold 8 and 32 bytes.
\<close>

definition getProcessName :: "'w os \<Rightarrow> DWord \<Rightarrow> 'w world \<Rightarrow> JSString option \<times> 'w world" where
  "getProcessName os pid w =
     (case kernel32_OpenProcess os (PROCESS_QUERY_INFORMATION OR PROCESS_VM_READ) 0 pid w of
        (hProcess, w1) \<Rightarrow>
          if truthy_pointer hProcess then
            (let hMod = replicate 1 NULL
             in case psapi_EnumProcessModules os hProcess hMod sizeof_pointer w1 of
                  ((success, hMod'), w2) \<Rightarrow>
                    if success \<noteq> 0 then
                      (let theStringBuffer = replicate MAX_PROCESS_NAME_LENGTH NUL
                       in case kernel32_K32GetModuleBaseNameA os hProcess (hMod' ! 0)
                                 theStringBuffer (length theStringBuffer) w2 of
                            (theStringBuffer', w3) \<Rightarrow>
                              (Some (readCString os theStringBuffer' w3), w3))
                    else (None, w2))
          else (None, w1))"

section \<open>The iteration and query functions\<close>

text \<open>
  A value is truthy in \<open>if (name)\<close> unless it is \<open>undefined\<close> or the empty string.
\<close>

fun truthy :: "JSString option \<Rightarrow> bool" where
  "truthy None = False"
| "truthy (Some s) = (s \<noteq> [])"

text \<open>
  \<open>processNameIterator\<close> is a generator.  Between two requests it is suspended: before its
  first statement (\<open>Suspended_Start\<close>), at the \<open>yield\<close> of the loop with the list and the
  index of that round (\<open>Suspended_Yield\<close>), or it has finished (\<open>Completed\<close>).
\<close>

datatype generator =
    Suspended_Start
  | Suspended_Yield "DWord list" nat
  | Completed

text \<open>
  The \<open>for\<close> loop from index \<open>i\<close> to its next \<open>yield\<close> (the name and the suspended
  generator) or to its end (nothing, and the completed generator).
\<close>

function processNameIterator_loop ::
  "'w os \<Rightarrow> DWord list \<Rightarrow> nat \<Rightarrow> 'w world \<Rightarrow> (JSString option \<times> generator) \<times> 'w world" where
  "processNameIterator_loop os processIDList i w =
     (if i < length processIDList then
        (case getProcessName os (processIDList ! i) w of
           (name, w') \<Rightarrow>
             if truthy name then ((name, Suspended_Yield processIDList i), w')
             else processNameIterator_loop os processIDList (i + 1) w')
      else ((None, Completed), w))"
  by pat_completeness auto
termination
  by (relation "measure (\<lambda>(os, processIDList, i, w). length processIDList - i)") auto

declare processNameIterator_loop.simps [simp del]

text \<open>
  One request to the generator (\<open>next()\<close>): \<open>None\<close> when the enumeration never returns;
  otherwise the error the enumeration raised, or the value yielded, or no value when the
  generator is done.
\<close>

definition processNameIterator_next ::
  "'w os \<Rightarrow> generator \<Rightarrow> 'w world \<Rightarrow>
     ((error + JSString option \<times> generator) \<times> 'w world) option" where
  "processNameIterator_next os g w =
     (case g of
        Suspended_Start \<Rightarrow>
          (case getProcessIDList os w of
             None \<Rightarrow> None
           | Some (Inl e, w') \<Rightarrow> Some (Inl e, w')
           | Some (Inr processIDList, w') \<Rightarrow>
               (case processNameIterator_loop os processIDList 0 w' of
                  (x, w'') \<Rightarrow> Some (Inr x, w'')))
      | Suspended_Yield processIDList i \<Rightarrow>
          (case processNameIterator_loop os processIDList (i + 1) w of
             (x, w') \<Rightarrow> Some (Inr x, w'))
      | Completed \<Rightarrow> Some (Inr (None, Completed), w))"

text \<open>
  \<open>processNameIterator()\<close> only creates the generator; no statement of its body runs.
\<close>

definition processNameIterator :: generator where
  "processNameIterator = Suspended_Start"

text \<open>The spread \<open>[...g]\<close>: requests values until the generator is done or raises.\<close>

partial_function (option) spread ::
  "'w os \<Rightarrow> generator \<Rightarrow> JSString list \<Rightarrow> 'w world \<Rightarrow>
     ((error + JSString list) \<times> 'w world) option" where
  "spread os g acc w =
     (case processNameIterator_next os g w of
        None \<Rightarrow> None
      | Some (Inl e, w') \<Rightarrow> Some (Inl e, w')
      | Some (Inr (None, g'), w') \<Rightarrow> Some (Inr acc, w')
      | Some (Inr (Some v, g'), w') \<Rightarrow> spread os g' (acc @ [v]) w')"

declare spread.simps [code]

definition getProcessNameList ::
  "'w os \<Rightarrow> 'w world \<Rightarrow> ((error + JSString list) \<times> 'w world) option" where
  "getProcessNameList os w = spread os processNameIterator [] w"

text \<open>
  The \<open>for ... of\<close> loop of \<open>checkProcessIsRunning\<close>.  Leaving it by \<open>return true\<close> closes
  the generator; it is suspended at a \<open>yield\<close> that no cleanup block encloses, so none of its
  statements runs any more.
\<close>

partial_function (option) checkProcessIsRunning_loop ::
  "'w os \<Rightarrow> JSString \<Rightarrow> generator \<Rightarrow> 'w world \<Rightarrow> ((error + bool) \<times> 'w world) option" where
  "checkProcessIsRunning_loop os processName g w =
     (case processNameIterator_next os g w of
        None \<Rightarrow> None
      | Some (Inl e, w') \<Rightarrow> Some (Inl e, w')
      | Some (Inr (None, g'), w') \<Rightarrow> Some (Inr False, w')
      | Some (Inr (Some runningProcessName, g'), w') \<Rightarrow>
          if runningProcessName = processName then Some (Inr True, w')
          else checkProcessIsRunning_loop os processName g' w')"

declare checkProcessIsRunning_loop.simps [code]

definition checkProcessIsRunning ::
  "'w os \<Rightarrow> JSString \<Rightarrow> 'w world \<Rightarrow> ((error + bool) \<times> 'w world) option" where
  "checkProcessIsRunning os processName w =
     checkProcessIsRunning_loop os processName processNameIterator w"

section \<open>Vocabulary of the properties\<close>

subsection \<open>Rounds of the capacity-probing loop\<close>

text \<open>
  The loop entered with \<open>expectedProcessNum = e\<close> doubles the number before every call:
  round \<open>i\<close> (counted from \<open>0\<close>) asks for \<open>requested e i\<close> entries.  For
  \<open>getProcessIDList\<close>, where \<open>e\<close> is \<open>QUERY_SIZE / 2\<close>, these are 2048, 4096, 8192, ...
\<close>

definition requested :: "nat \<Rightarrow> nat \<Rightarrow> nat" where
  "requested e i = e * 2 ^ Suc i"

text \<open>The world in which round \<open>i\<close> starts, when all rounds before it were made.\<close>

primrec world_before :: "'w os \<Rightarrow> nat \<Rightarrow> 'w world \<Rightarrow> nat \<Rightarrow> 'w world" where
  "world_before os e w 0 = w"
| "world_before os e w (Suc i) =
     snd (retrieveNProcesses os (requested e i) (world_before os e w i))"

text \<open>
  What round \<open>i\<close> gets from \<open>_retrieveNProcesses\<close>: the error it raises, or the array and
  the number of entries.
\<close>

definition probe :: "'w os \<Rightarrow> nat \<Rightarrow> 'w world \<Rightarrow> nat \<Rightarrow> error + DWord list \<times> nat" where
  "probe os e w i = fst (retrieveNProcesses os (requested e i) (world_before os e w i))"

text \<open>
  The number of entries round \<open>i\<close> returns, the \<open>processNum\<close> that the loop compares with
  the number requested; none when the round raises.
\<close>

definition returned :: "'w os \<Rightarrow> nat \<Rightarrow> 'w world \<Rightarrow> nat \<Rightarrow> nat option" where
  "returned os e w i = (case probe os e w i of Inl err \<Rightarrow> None | Inr (a, n) \<Rightarrow> Some n)"

text \<open>
  What \<open>getProcessIDList\<close> makes of its last round: the error goes on to the caller, the
  array is cut to its entries.
\<close>

fun outcome :: "error + DWord list \<times> nat \<Rightarrow> error + DWord list" where
  "outcome (Inl err) = Inl err"
| "outcome (Inr (a, n)) = Inr (take n a)"

subsection \<open>Resolution of a list of identifiers\<close>

text \<open>
  The name buffer of \<open>getProcessName\<close> after \<open>K32GetModuleBaseNameA\<close> stored \<open>stored\<close> in
  it: 32 bytes, those stored first, the rest still \<open>NUL\<close>.
\<close>

definition buffer_after :: "string \<Rightarrow> string" where
  "buffer_after stored =
     take MAX_PROCESS_NAME_LENGTH
       (stored @ drop (length stored) (replicate MAX_PROCESS_NAME_LENGTH NUL))"

text \<open>
  The outcome of \<open>getProcessName\<close> for each identifier of the list, called in order, each call
  in the world the one before left.
\<close>

fun resolve_all :: "'w os \<Rightarrow> DWord list \<Rightarrow> 'w world \<Rightarrow> JSString option list \<times> 'w world" where
  "resolve_all os [] w = ([], w)"
| "resolve_all os (pid # pids) w =
     (case getProcessName os pid w of (r, w') \<Rightarrow>
        case resolve_all os pids w' of (rs, w'') \<Rightarrow> (r # rs, w''))"

text \<open>
  The body of \<open>processNameIterator\<close> run from its loop's first round to its end without
  being suspended: the names it yields, in order, and the world at its end.
\<close>

fun processNameIterator_yields ::
  "'w os \<Rightarrow> DWord list \<Rightarrow> 'w world \<Rightarrow> JSString list \<times> 'w world" where
  "processNameIterator_yields os [] w = ([], w)"
| "processNameIterator_yields os (pid # pids) w =
     (case getProcessName os pid w of (name, w') \<Rightarrow>
        case processNameIterator_yields os pids w' of (ns, w'') \<Rightarrow>
          (if truthy name then the name # ns else ns, w''))"

text \<open>
  Materializing \<open>processNameIterator\<close> from start to exhaustion: one enumeration, then all
  that the body yields; the error of the enumeration when it raises one.
\<close>

definition materialize ::
  "'w os \<Rightarrow> 'w world \<Rightarrow> ((error + JSString list) \<times> 'w world) option" where
  "materialize os w =
     (case getProcessIDList os w of
        None \<Rightarrow> None
      | Some (Inl e, w') \<Rightarrow> Some (Inl e, w')
      | Some (Inr processIDList, w') \<Rightarrow>
          (case processNameIterator_yields os processIDList w' of
             (names, w'') \<Rightarrow> Some (Inr names, w'')))"

text \<open>
  Resolving the identifiers in order up to the first whose name is yielded and is equal to
  \<open>processName\<close>: whether there is one, and the world after its resolution (after the last
  resolution when there is none).
\<close>

fun first_match :: "'w os \<Rightarrow> JSString \<Rightarrow> DWord list \<Rightarrow> 'w world \<Rightarrow> bool \<times> 'w world" where
  "first_match os processName [] w = (False, w)"
| "first_match os processName (pid # pids) w =
     (case getProcessName os pid w of (name, w') \<Rightarrow>
        if truthy name \<and> name = Some processName then (True, w')
        else first_match os processName pids w')"

text \<open>
  The identifiers \<open>getProcessName\<close> was called with, oldest first.  Every call of
  \<open>getProcessName\<close> starts with one call of \<open>OpenProcess\<close> on its argument, and nothing else
  calls \<open>OpenProcess\<close>.
\<close>

fun opened :: "native_call \<Rightarrow> DWord list" where
  "opened (Call_OpenProcess pid) = [pid]"
| "opened _ = []"

definition resolver_calls :: "'w world \<Rightarrow> DWord list" where
  "resolver_calls w = concat (map opened (calls w))"


subsection \<open>Example systems\<close>

text \<open>
  A JavaScript string written in ASCII, as its UTF-16 code units.
\<close>

definition ascii :: "string \<Rightarrow> JSString" where
  "ascii s = map (\<lambda>c. word_of_nat (of_char c)) s"

text \<open>
  The decoder of the example systems: a byte below \<open>0x80\<close> is the character it encodes, and
  any other byte is replaced by \<open>U+FFFD\<close>, as UTF-8 decoding replaces a byte that belongs to
  no sequence.  The names of the examples are ASCII.
\<close>

definition utf8_example :: "string \<Rightarrow> JSString" where
  "utf8_example bytes =
     map (\<lambda>c. if (of_char c :: nat) < 128 then word_of_nat (of_char c) else 0xFFFD) bytes"

text \<open>
  The system of the specification's scenario: the identifiers 10, 20 and 30, where 10 is
  \<open>alpha.exe\<close>, 20 cannot be opened and 30 is \<open>beta.exe\<close>.  Beyond the scenario, process 40
  can be opened but its modules cannot be listed, process 50 has a base name of 38
  characters, and the base name of any other process cannot be fetched.  The modules of
  the \<open>NULL\<close> handle cannot be listed, and a base name is stored with a \<open>NUL\<close> behind it,
  cut to leave room for the \<open>NUL\<close>.  Every array is allocated, and the bytes \<open>xyz\<close> lie
  behind the name buffer.
\<close>

definition os_example :: "unit os" where
  "os_example = \<lparr>
     EnumProcesses = (\<lambda>cb s. ([10, 20, 30], s)),
     OpenProcess = (\<lambda>access inherit pid s. (if pid = 20 then NULL else unat pid + 100, s)),
     EnumProcessModules = (\<lambda>h cb s. (if h = NULL \<or> h = 140 then None else Some [h + 1, h + 2], s)),
     K32GetModuleBaseNameA = (\<lambda>h m nSize s.
       (if h = 110 then ''alpha.exe'' @ [NUL]
        else if h = 130 then ''beta.exe'' @ [NUL]
        else if h = 150 then take (nSize - 1) ''a_rather_long_executable_base_name.exe'' @ [NUL]
        else [], s)),
     allocates = (\<lambda>n s. True),
     memory_after = (\<lambda>s. ''xyz''),
     utf8 = utf8_example \<rparr>"

text \<open>
  A test double of the same system that lists modules for whatever handle it is given, the
  \<open>NULL\<close> handle too.
\<close>

definition os_lenient :: "unit os" where
  "os_lenient = os_example\<lparr>EnumProcessModules := (\<lambda>h cb s. (Some [h + 1, h + 2], s))\<rparr>"

text \<open>The same system with process 60 alone, whose base name cannot be fetched.\<close>

definition os_blank :: "unit os" where
  "os_blank = os_example\<lparr>EnumProcesses := (\<lambda>cb s. ([60], s))\<rparr>"


text \<open>The same system, except that every enumeration fills the whole buffer.\<close>

definition os_full :: "unit os" where
  "os_full = os_example\<lparr>EnumProcesses := (\<lambda>cb s. (replicate (unat cb div DWord_size) 0, s))\<rparr>"

text \<open>
  A system that counts its enumerations: the first \<open>t\<close> fill the buffer, every later one
  reports three processes.
\<close>

definition os_growing :: "nat \<Rightarrow> nat os" where
  "os_growing t = \<lparr>
     EnumProcesses = (\<lambda>cb n.
       (if n < t then replicate (unat cb div DWord_size) 4 else [10, 20, 30], Suc n)),
     OpenProcess = (\<lambda>access inherit pid n. (unat pid + 100, n)),
     EnumProcessModules = (\<lambda>h cb n. (Some [h + 1], n)),
     K32GetModuleBaseNameA = (\<lambda>h m nSize n. (''gosu.exe'' @ [NUL], n)),
     allocates = (\<lambda>n s. True),
     memory_after = (\<lambda>s. []),
     utf8 = utf8_example \<rparr>"

text \<open>Initial worlds: no call made, no handle open.\<close>

definition world0 :: "unit world" where
  "world0 = \<lparr>os_state = (), calls = [], open_handles = []\<rparr>"

definition world1 :: "nat world" where
  "world1 = \<lparr>os_state = 0, calls = [], open_handles = []\<rparr>"

section \<open>The enumerator\<close>

lemma unat_DWord: "n < 2 ^ 32 \<Longrightarrow> unat (word_of_nat n :: DWord) = n"
  by (simp add: unat_of_nat)

lemma retrieveNProcesses_eq:
  "retrieveNProcesses os n w =
     (if \<not> allocates os (DWord_size * n) (os_state w)
      then (Inl (Allocation_failed (DWord_size * n)), w)
      else if 2 ^ 32 \<le> DWord_size * n
      then (Inl (Out_of_bounds (DWord_size * n)), w)
      else
        (let r = EnumProcesses os (word_of_nat (DWord_size * n)) (os_state w);
             pids = take n (fst r)
         in (Inr (pids @ replicate (n - length pids) 0, length pids),
             w\<lparr>os_state := snd r,
               calls := calls w @ [Call_EnumProcesses (word_of_nat (DWord_size * n))]\<rparr>)))"
proof (cases "DWord_size * n < 2 ^ 32")
  case False
  then show ?thesis
    by (simp add: retrieveNProcesses_def psapi_EnumProcesses_def marshal_DWord_def)
next
  case True
  obtain pids s' where r: "EnumProcesses os (word_of_nat (DWord_size * n)) (os_state w) = (pids, s')"
    by (metis prod.exhaust)
  have "unat (word_of_nat (DWord_size * n) :: DWord) = DWord_size * n"
    using True by (rule unat_DWord)
  then have cb: "unat (word_of_nat (DWord_size * n) :: DWord) div DWord_size = n"
    by (simp add: DWord_size_def)
  have "DWord_size * length (take n pids) \<le> DWord_size * n" by simp
  with True have "DWord_size * length (take n pids) < 2 ^ 32" by linarith
  then have "unat (word_of_nat (DWord_size * length (take n pids)) :: DWord) =
               DWord_size * length (take n pids)"
    by (rule unat_DWord)
  then have needed: "unat (word_of_nat (DWord_size * length (take n pids)) :: DWord) div DWord_size
                 = length (take n pids)"
    by (simp add: DWord_size_def)
  show ?thesis
    using True r cb needed
    by (simp add: retrieveNProcesses_def psapi_EnumProcesses_def marshal_DWord_def Let_def)
qed

lemma retrieveNProcesses_le:
  "fst (retrieveNProcesses os n w) = Inr (a, m) \<Longrightarrow> m \<le> n"
  by (auto simp add: retrieveNProcesses_eq Let_def split: if_splits)

lemma retrieveNProcesses_bounds:
  "2 ^ 32 \<le> DWord_size * n \<Longrightarrow> \<exists>err. retrieveNProcesses os n w = (Inl err, w)"
  by (simp add: retrieveNProcesses_eq)

lemma retrieveNProcesses_calls:
  "calls (snd (retrieveNProcesses os n w)) =
     calls w @ (case fst (retrieveNProcesses os n w) of
                  Inl err \<Rightarrow> []
                | Inr x \<Rightarrow> [Call_EnumProcesses (word_of_nat (DWord_size * n))])"
  by (simp add: retrieveNProcesses_eq Let_def)

lemma requested_shift: "requested e (Suc i) = requested (e * 2) i"
  by (simp add: requested_def)

lemma world_before_shift:
  "world_before os e w (Suc i) =
     world_before os (e * 2) (snd (retrieveNProcesses os (e * 2) w)) i"
proof (induction i)
  case 0
  show ?case by (simp add: requested_def)
next
  case (Suc i)
  have "world_before os e w (Suc (Suc i)) =
          snd (retrieveNProcesses os (requested e (Suc i)) (world_before os e w (Suc i)))"
    by simp
  also have "\<dots> = snd (retrieveNProcesses os (requested (e * 2) i)
                      (world_before os (e * 2) (snd (retrieveNProcesses os (e * 2) w)) i))"
    by (simp only: Suc.IH requested_shift)
  finally show ?case by simp
qed

lemma probe_shift:
  "probe os e w (Suc i) = probe os (e * 2) (snd (retrieveNProcesses os (e * 2) w)) i"
  unfolding probe_def by (simp only: world_before_shift requested_shift)

lemma returned_shift:
  "returned os e w (Suc i) = returned os (e * 2) (snd (retrieveNProcesses os (e * 2) w)) i"
  unfolding returned_def by (simp only: probe_shift)

lemma probe_0: "probe os e w 0 = fst (retrieveNProcesses os (e * 2) w)"
  by (simp add: probe_def requested_def)

lemma returned_le: "returned os e w i = Some n \<Longrightarrow> n \<le> requested e i"
  by (auto simp add: returned_def probe_def split: sum.splits dest: retrieveNProcesses_le)

lemma returned_bounds: "2 ^ 32 \<le> DWord_size * requested e i \<Longrightarrow> returned os e w i = None"
  using retrieveNProcesses_bounds[of "requested e i" os "world_before os e w i"]
  by (auto simp add: returned_def probe_def)

lemma returned_eq:
  "returned os e w i = Some n \<longleftrightarrow>
     allocates os (DWord_size * requested e i) (os_state (world_before os e w i)) \<and>
     DWord_size * requested e i < 2 ^ 32 \<and>
     n = length (take (requested e i)
           (fst (EnumProcesses os (word_of_nat (DWord_size * requested e i))
                  (os_state (world_before os e w i)))))"
  by (auto simp add: returned_def probe_def retrieveNProcesses_eq Let_def)

lemma probe_short:
  assumes "returned os e w k = Some n" and "n < requested e k"
  shows "outcome (probe os e w k) =
           Inr (fst (EnumProcesses os (word_of_nat (DWord_size * requested e k))
                       (os_state (world_before os e w k))))"
proof -
  let ?pids = "fst (EnumProcesses os (word_of_nat (DWord_size * requested e k))
                      (os_state (world_before os e w k)))"
  from assms(1) have a: "allocates os (DWord_size * requested e k) (os_state (world_before os e w k))"
    and b: "DWord_size * requested e k < 2 ^ 32"
    and n: "n = length (take (requested e k) ?pids)"
    by (simp_all add: returned_eq)
  from n assms(2) have "length ?pids < requested e k" by simp
  with a b show ?thesis
    by (simp add: probe_def retrieveNProcesses_eq Let_def)
qed

lemma loop_step:
  "getProcessIDList_loop os e w =
     (if returned os e w 0 = Some (e * 2)
      then getProcessIDList_loop os (e * 2) (world_before os e w (Suc 0))
      else Some (outcome (probe os e w 0), world_before os e w (Suc 0)))"
proof -
  obtain x w' where r: "retrieveNProcesses os (e * 2) w = (x, w')" by (metis prod.exhaust)
  show ?thesis
  proof (cases x)
    case (Inl err)
    with r show ?thesis
      by (subst getProcessIDList_loop.simps)
         (simp add: returned_def probe_0 requested_def)
  next
    case (Inr p)
    obtain a n where "p = (a, n)" by (cases p)
    with Inr r show ?thesis
      by (subst getProcessIDList_loop.simps)
         (simp add: returned_def probe_0 requested_def)
  qed
qed

text \<open>
  Rounds that fill the buffer are followed by another round; the first that does not, or
  that raises, ends the loop.
\<close>

lemma loop_continues:
  "(\<forall>i<k. returned os e w i = Some (requested e i)) \<Longrightarrow>
   getProcessIDList_loop os e w = getProcessIDList_loop os (e * 2 ^ k) (world_before os e w k)"
proof (induction k arbitrary: e w)
  case 0
  show ?case by simp
next
  case (Suc k)
  let ?w1 = "snd (retrieveNProcesses os (e * 2) w)"
  have full0: "returned os e w 0 = Some (e * 2)"
    using Suc.prems by (simp add: requested_def)
  have "\<forall>i<k. returned os (e * 2) ?w1 i = Some (requested (e * 2) i)"
    using Suc.prems by (auto simp flip: returned_shift requested_shift)
  then have "getProcessIDList_loop os (e * 2) ?w1 =
               getProcessIDList_loop os (e * 2 * 2 ^ k) (world_before os (e * 2) ?w1 k)"
    by (rule Suc.IH)
  moreover have "getProcessIDList_loop os e w = getProcessIDList_loop os (e * 2) ?w1"
    using full0 by (subst loop_step) (simp add: requested_def)
  ultimately show ?case
    by (simp only: world_before_shift power_Suc mult.assoc)
qed

lemma requested_at: "requested (e * 2 ^ k) 0 = requested e k"
  by (simp add: requested_def ac_simps)

lemma probe_at: "probe os (e * 2 ^ k) (world_before os e w k) 0 = probe os e w k"
  by (simp only: probe_def world_before.simps requested_at)

lemma returned_at: "returned os (e * 2 ^ k) (world_before os e w k) 0 = returned os e w k"
  by (simp add: returned_def probe_at)

lemma world_before_at:
  "world_before os (e * 2 ^ k) (world_before os e w k) (Suc 0) = world_before os e w (Suc k)"
  by (simp only: world_before.simps requested_at)

lemma loop_stops:
  assumes "\<forall>i<k. returned os e w i = Some (requested e i)"
    and "returned os e w k \<noteq> Some (requested e k)"
  shows "getProcessIDList_loop os e w =
           Some (outcome (probe os e w k), world_before os e w (Suc k))"
proof -
  have "returned os (e * 2 ^ k) (world_before os e w k) 0 \<noteq> Some (e * 2 ^ k * 2)"
    using assms(2) by (simp add: returned_at requested_def ac_simps)
  then have "getProcessIDList_loop os (e * 2 ^ k) (world_before os e w k) =
               Some (outcome (probe os e w k), world_before os e w (Suc k))"
    by (subst loop_step) (simp only: probe_at world_before_at if_False)
  with loop_continues[OF assms(1)] show ?thesis by simp
qed

text \<open>
  A round whose size in bytes is out of the range of a \<open>DWord\<close> raises, so the loop always
  ends: for \<open>getProcessIDList\<close> in round 19 at the latest, where the size is \<open>2 ^ 32\<close>.
\<close>

lemma loop_total:
  assumes "2 ^ 32 \<le> DWord_size * requested e m"
  shows "\<exists>k\<le>m. (\<forall>i<k. returned os e w i = Some (requested e i)) \<and>
              returned os e w k \<noteq> Some (requested e k) \<and>
              getProcessIDList_loop os e w =
                Some (outcome (probe os e w k), world_before os e w (Suc k))"
proof -
  let ?P = "\<lambda>k. returned os e w k \<noteq> Some (requested e k)"
  have m: "?P m" using returned_bounds[OF assms, of os w] by simp
  define k where "k = (LEAST k. ?P k)"
  have k: "?P k" unfolding k_def using m by (rule LeastI)
  have le: "k \<le> m" unfolding k_def using m by (rule Least_le)
  have before: "\<forall>i<k. returned os e w i = Some (requested e i)"
    using not_less_Least[of _ ?P] unfolding k_def by blast
  from loop_stops[OF before k] before k le show ?thesis by blast
qed

lemma requested_QUERY_SIZE: "requested (QUERY_SIZE div 2) i = QUERY_SIZE * 2 ^ i"
  by (simp add: requested_def QUERY_SIZE_def)

lemma DWord_size_requested: "DWord_size * requested (QUERY_SIZE div 2) i = 2 ^ (i + 13)"
  by (simp add: requested_def QUERY_SIZE_def DWord_size_def power_add)

lemma requested_fits:
  "i < 19 \<longleftrightarrow> DWord_size * requested (QUERY_SIZE div 2) i < 2 ^ 32"
proof -
  have "(2::nat) ^ (i + 13) < 2 ^ 32 \<longleftrightarrow> i + 13 < 32"
    by (rule power_strict_increasing_iff) simp
  then show ?thesis
    unfolding DWord_size_requested by auto
qed

lemma getProcessIDList_stops:
  "\<exists>k\<le>19. (\<forall>i<k. returned os (QUERY_SIZE div 2) w i = Some (requested (QUERY_SIZE div 2) i)) \<and>
           returned os (QUERY_SIZE div 2) w k \<noteq> Some (requested (QUERY_SIZE div 2) k) \<and>
           getProcessIDList os w =
             Some (outcome (probe os (QUERY_SIZE div 2) w k),
                   world_before os (QUERY_SIZE div 2) w (Suc k))"
  unfolding getProcessIDList_def
  by (rule loop_total) (simp add: requested_def QUERY_SIZE_def DWord_size_def)

lemma getProcessIDList_overflow:
  assumes "\<forall>i<19. returned os (QUERY_SIZE div 2) w i = Some (requested (QUERY_SIZE div 2) i)"
    and "allocates os 4294967296 (os_state (world_before os (QUERY_SIZE div 2) w 19))"
  shows "getProcessIDList os w =
           Some (Inl (Out_of_bounds 4294967296), world_before os (QUERY_SIZE div 2) w 19)"
proof -
  let ?e = "QUERY_SIZE div 2"
  have size: "DWord_size * requested ?e 19 = 4294967296"
    by (simp add: DWord_size_requested)
  then have r: "retrieveNProcesses os (requested ?e 19) (world_before os ?e w 19) =
             (Inl (Out_of_bounds 4294967296), world_before os ?e w 19)"
    using assms(2) by (simp add: retrieveNProcesses_eq)
  then have short: "returned os ?e w 19 \<noteq> Some (requested ?e 19)"
    by (simp add: returned_def probe_def)
  have "world_before os ?e w (Suc 19) = world_before os ?e w 19"
    by (simp only: world_before.simps r snd_conv)
  moreover have "outcome (probe os ?e w 19) = Inl (Out_of_bounds 4294967296)"
    by (simp only: probe_def r fst_conv outcome.simps)
  ultimately show ?thesis
    unfolding getProcessIDList_def using loop_stops[OF assms(1) short] by (simp only:)
qed

lemma world_before_calls:
  "(\<forall>i<k. returned os e w i = Some (requested e i)) \<Longrightarrow>
   calls (world_before os e w k) =
     calls w @ map (\<lambda>i. Call_EnumProcesses (word_of_nat (DWord_size * requested e i))) [0..<k]"
proof (induction k)
  case 0
  show ?case by simp
next
  case (Suc k)
  from Suc.prems have "returned os e w k = Some (requested e k)" by simp
  then obtain a where "probe os e w k = Inr (a, requested e k)"
    by (auto simp add: returned_def split: sum.splits)
  then have "fst (retrieveNProcesses os (requested e k) (world_before os e w k)) =
               Inr (a, requested e k)"
    by (simp add: probe_def)
  then have "calls (world_before os e w (Suc k)) =
      calls (world_before os e w k) @
        [Call_EnumProcesses (word_of_nat (DWord_size * requested e k))]"
    by (simp add: retrieveNProcesses_calls)
  with Suc show ?case by simp
qed

lemma world_before_calls_Suc:
  assumes "\<forall>i<k. returned os e w i = Some (requested e i)" and "returned os e w k = Some n"
  shows "calls (world_before os e w (Suc k)) =
     calls w @ map (\<lambda>i. Call_EnumProcesses (word_of_nat (DWord_size * requested e i))) [0..<Suc k]"
proof -
  from assms(2) obtain a where "probe os e w k = Inr (a, n)"
    by (auto simp add: returned_def split: sum.splits)
  then have "fst (retrieveNProcesses os (requested e k) (world_before os e w k)) = Inr (a, n)"
    by (simp add: probe_def)
  then have "calls (world_before os e w (Suc k)) =
      calls (world_before os e w k) @
        [Call_EnumProcesses (word_of_nat (DWord_size * requested e k))]"
    by (simp add: retrieveNProcesses_calls)
  with world_before_calls[OF assms(1)] show ?thesis by simp
qed

lemma world_before_length_calls:
  "length (calls (world_before os e w k)) \<le> length (calls w) + k"
proof (induction k)
  case 0
  show ?case by simp
next
  case (Suc k)
  have "length (calls (world_before os e w (Suc k))) \<le> length (calls (world_before os e w k)) + 1"
    by (simp add: retrieveNProcesses_calls split: sum.splits)
  with Suc show ?case by simp
qed

lemma getProcessIDList_calls_le:
  assumes "getProcessIDList os w = Some (r, w')"
  shows "length (calls w') \<le> length (calls w) + 19"
proof -
  let ?e = "QUERY_SIZE div 2"
  from getProcessIDList_stops[of os w] assms obtain k where
    k: "k \<le> 19" "w' = world_before os ?e w (Suc k)"
    by auto
  show ?thesis
  proof (cases "k = 19")
    case True
    have "2 ^ 32 \<le> DWord_size * requested ?e 19"
      by (simp add: DWord_size_requested)
    from retrieveNProcesses_bounds[OF this, of os "world_before os ?e w 19"]
    obtain err where "retrieveNProcesses os (requested ?e 19) (world_before os ?e w 19) =
        (Inl err, world_before os ?e w 19)"
      by blast
    then have "world_before os ?e w (Suc 19) = world_before os ?e w 19"
      by (simp only: world_before.simps snd_conv)
    with k(2) True have "w' = world_before os ?e w 19" by (simp only:)
    with world_before_length_calls[of os ?e w 19] show ?thesis by simp
  next
    case False
    with k(1) have "Suc k \<le> 19" by simp
    with k(2) world_before_length_calls[of os ?e w "Suc k"] show ?thesis by simp
  qed
qed

lemma retrieveNProcesses_resolver_calls:
  "resolver_calls (snd (retrieveNProcesses os n w)) = resolver_calls w"
  by (simp add: resolver_calls_def retrieveNProcesses_calls split: sum.splits)

lemma world_before_resolver_calls:
  "resolver_calls (world_before os e w k) = resolver_calls w"
  by (induction k) (simp_all add: retrieveNProcesses_resolver_calls)

lemma getProcessIDList_resolver_calls:
  assumes "getProcessIDList os w = Some (r, w1)"
  shows "resolver_calls w1 = resolver_calls w"
proof -
  from getProcessIDList_stops[of os w] assms obtain k where
    "w1 = world_before os (QUERY_SIZE div 2) w (Suc k)"
    by auto
  then show ?thesis by (simp only: world_before_resolver_calls)
qed

subsection \<open>The enumerator reads nothing but the state of the system\<close>









section \<open>The resolver\<close>

lemma kernel32_OpenProcess_eq:
  "OpenProcess os access inherit pid (os_state w) = (h, s1) \<Longrightarrow>
   kernel32_OpenProcess os access inherit pid w =
     (h, w\<lparr>os_state := s1, calls := calls w @ [Call_OpenProcess pid],
           open_handles := (if h = NULL then open_handles w else h # open_handles w)\<rparr>)"
  by (simp add: kernel32_OpenProcess_def)

lemma psapi_EnumProcessModules_fails:
  "EnumProcessModules os h cb (os_state w) = (None, s2) \<Longrightarrow>
   psapi_EnumProcessModules os h hMod cb w =
     ((0, hMod), w\<lparr>os_state := s2, calls := calls w @ [Call_EnumProcessModules h]\<rparr>)"
  by (simp add: psapi_EnumProcessModules_def)

lemma psapi_EnumProcessModules_succeeds:
  "EnumProcessModules os h sizeof_pointer (os_state w) = (Some mods, s2) \<Longrightarrow>
   psapi_EnumProcessModules os h [NULL] sizeof_pointer w =
     ((1, [hd (mods @ [NULL])]),
      w\<lparr>os_state := s2, calls := calls w @ [Call_EnumProcessModules h]\<rparr>)"
  by (cases mods) (simp_all add: psapi_EnumProcessModules_def sizeof_pointer_def)

lemma kernel32_K32GetModuleBaseNameA_eq:
  "K32GetModuleBaseNameA os h m MAX_PROCESS_NAME_LENGTH (os_state w) = (stored, s3) \<Longrightarrow>
   kernel32_K32GetModuleBaseNameA os h m (replicate MAX_PROCESS_NAME_LENGTH NUL)
     MAX_PROCESS_NAME_LENGTH w =
     (buffer_after stored,
      w\<lparr>os_state := s3,
        calls := calls w @ [Call_K32GetModuleBaseNameA h m MAX_PROCESS_NAME_LENGTH]\<rparr>)"
  by (simp add: kernel32_K32GetModuleBaseNameA_def buffer_after_def)

text \<open>
  The two ways through \<open>getProcessName\<close>.  Both go through \<open>EnumProcessModules\<close>, whatever
  handle \<open>OpenProcess\<close> returned.
\<close>

lemma getProcessName_modules_fail:
  assumes "OpenProcess os (PROCESS_QUERY_INFORMATION OR PROCESS_VM_READ) 0 pid (os_state w) = (h, s1)"
    and "EnumProcessModules os h sizeof_pointer s1 = (None, s2)"
  shows "getProcessName os pid w =
           (None, w\<lparr>os_state := s2,
                    calls := calls w @ [Call_OpenProcess pid, Call_EnumProcessModules h],
                    open_handles := (if h = NULL then open_handles w else h # open_handles w)\<rparr>)"
  using assms
  by (simp add: getProcessName_def truthy_pointer_def kernel32_OpenProcess_eq
      psapi_EnumProcessModules_fails)

lemma getProcessName_succeeds:
  assumes "OpenProcess os (PROCESS_QUERY_INFORMATION OR PROCESS_VM_READ) 0 pid (os_state w) = (h, s1)"
    and "EnumProcessModules os h sizeof_pointer s1 = (Some mods, s2)"
    and "K32GetModuleBaseNameA os h (hd (mods @ [NULL])) MAX_PROCESS_NAME_LENGTH s2 = (stored, s3)"
  shows "getProcessName os pid w =
           (Some (utf8 os (takeWhile (\<lambda>c. c \<noteq> NUL) (buffer_after stored @ memory_after os s3))),
            w\<lparr>os_state := s3,
              calls := calls w @ [Call_OpenProcess pid, Call_EnumProcessModules h,
                Call_K32GetModuleBaseNameA h (hd (mods @ [NULL])) MAX_PROCESS_NAME_LENGTH],
              open_handles := (if h = NULL then open_handles w else h # open_handles w)\<rparr>)"
proof -
  let ?w1 = "w\<lparr>os_state := s1, calls := calls w @ [Call_OpenProcess pid],
                open_handles := (if h = NULL then open_handles w else h # open_handles w)\<rparr>"
  let ?w2 = "?w1\<lparr>os_state := s2, calls := calls ?w1 @ [Call_EnumProcessModules h]\<rparr>"
  let ?w3 = "?w2\<lparr>os_state := s3, calls := calls ?w2 @
      [Call_K32GetModuleBaseNameA h (hd (mods @ [NULL])) MAX_PROCESS_NAME_LENGTH]\<rparr>"
  have o: "kernel32_OpenProcess os (PROCESS_QUERY_INFORMATION OR PROCESS_VM_READ) 0 pid w =
             (h, ?w1)"
    using assms(1) by (simp add: kernel32_OpenProcess_eq)
  have "EnumProcessModules os h sizeof_pointer (os_state ?w1) = (Some mods, s2)"
    using assms(2) by simp
  then have e: "psapi_EnumProcessModules os h [NULL] sizeof_pointer ?w1 =
                  ((1, [hd (mods @ [NULL])]), ?w2)"
    by (rule psapi_EnumProcessModules_succeeds)
  have "K32GetModuleBaseNameA os h (hd (mods @ [NULL])) MAX_PROCESS_NAME_LENGTH
             (os_state ?w2) = (stored, s3)"
    using assms(3) by simp
  then have k: "kernel32_K32GetModuleBaseNameA os h (hd (mods @ [NULL]))
      (replicate MAX_PROCESS_NAME_LENGTH NUL) MAX_PROCESS_NAME_LENGTH ?w2 =
      (buffer_after stored, ?w3)"
    by (rule kernel32_K32GetModuleBaseNameA_eq)
  show ?thesis
    using o e k by (simp add: getProcessName_def truthy_pointer_def Let_def readCString_def)
qed

lemma getProcessName_cases:
  obtains
    (modules_fail) h s1 s2 where
      "OpenProcess os (PROCESS_QUERY_INFORMATION OR PROCESS_VM_READ) 0 pid (os_state w) = (h, s1)"
      "EnumProcessModules os h sizeof_pointer s1 = (None, s2)"
      "getProcessName os pid w =
         (None, w\<lparr>os_state := s2,
                  calls := calls w @ [Call_OpenProcess pid, Call_EnumProcessModules h],
                  open_handles := (if h = NULL then open_handles w else h # open_handles w)\<rparr>)"
  | (succeeds) h s1 mods s2 stored s3 where
      "OpenProcess os (PROCESS_QUERY_INFORMATION OR PROCESS_VM_READ) 0 pid (os_state w) = (h, s1)"
      "EnumProcessModules os h sizeof_pointer s1 = (Some mods, s2)"
      "K32GetModuleBaseNameA os h (hd (mods @ [NULL])) MAX_PROCESS_NAME_LENGTH s2 = (stored, s3)"
      "getProcessName os pid w =
         (Some (utf8 os (takeWhile (\<lambda>c. c \<noteq> NUL) (buffer_after stored @ memory_after os s3))),
          w\<lparr>os_state := s3,
            calls := calls w @ [Call_OpenProcess pid, Call_EnumProcessModules h,
              Call_K32GetModuleBaseNameA h (hd (mods @ [NULL])) MAX_PROCESS_NAME_LENGTH],
            open_handles := (if h = NULL then open_handles w else h # open_handles w)\<rparr>)"
proof -
  obtain h s1 where
    o: "OpenProcess os (PROCESS_QUERY_INFORMATION OR PROCESS_VM_READ) 0 pid (os_state w) = (h, s1)"
    by (metis prod.exhaust)
  obtain ms s2 where e: "EnumProcessModules os h sizeof_pointer s1 = (ms, s2)"
    by (metis prod.exhaust)
  show thesis
  proof (cases ms)
    case None
    with e have e': "EnumProcessModules os h sizeof_pointer s1 = (None, s2)" by simp
    show thesis by (rule modules_fail[OF o e' getProcessName_modules_fail[OF o e']])
  next
    case (Some mods)
    with e have e': "EnumProcessModules os h sizeof_pointer s1 = (Some mods, s2)" by simp
    obtain stored s3 where
      k: "K32GetModuleBaseNameA os h (hd (mods @ [NULL])) MAX_PROCESS_NAME_LENGTH s2 = (stored, s3)"
      by (metis prod.exhaust)
    show thesis by (rule succeeds[OF o e' k getProcessName_succeeds[OF o e' k]])
  qed
qed

lemma getProcessName_resolver_calls:
  "resolver_calls (snd (getProcessName os pid w)) = resolver_calls w @ [pid]"
  by (cases rule: getProcessName_cases[of os pid w]) (simp_all add: resolver_calls_def)




lemma resolve_all_resolver_calls:
  "resolver_calls (snd (resolve_all os ids w)) = resolver_calls w @ ids"
proof (induction ids arbitrary: w)
  case Nil
  show ?case by simp
next
  case (Cons pid pids)
  obtain r w' where r: "getProcessName os pid w = (r, w')" by (metis prod.exhaust)
  from getProcessName_resolver_calls[of os pid w] r
  have "resolver_calls w' = resolver_calls w @ [pid]" by simp
  with Cons[of w'] r show ?case by (simp add: case_prod_beta)
qed

lemma resolve_all_length: "length (fst (resolve_all os ids w)) = length ids"
  by (induction ids arbitrary: w) (simp_all add: case_prod_beta)







section \<open>The generator and its two consumers\<close>

text \<open>
  Draining the generator request by request gives what its body yields when run through;
  the loop of \<open>checkProcessIsRunning\<close> is the scan to the first match.
\<close>

lemma spread_loop:
  "(case processNameIterator_loop os ids j w of
      ((None, g'), w') \<Rightarrow> Some (Inr acc, w')
    | ((Some v, g'), w') \<Rightarrow> spread os g' (acc @ [v]) w') =
   (case processNameIterator_yields os (drop j ids) w of (ns, w') \<Rightarrow> Some (Inr (acc @ ns), w'))"
proof (induction "length ids - j" arbitrary: j acc w)
  case 0
  then have "length ids \<le> j" by simp
  then show ?case by (simp add: processNameIterator_loop.simps)
next
  case (Suc n)
  then have lt: "j < length ids" and n: "n = length ids - (j + 1)" by simp_all
  have dr: "drop j ids = ids ! j # drop (j + 1) ids"
    using lt by (simp add: Cons_nth_drop_Suc)
  obtain name w' where r: "getProcessName os (ids ! j) w = (name, w')"
    by (metis prod.exhaust)
  obtain ns w'' where y: "processNameIterator_yields os (drop (j + 1) ids) w' = (ns, w'')"
    by (metis prod.exhaust)
  obtain ov g1 w1 where l: "processNameIterator_loop os ids (j + 1) w' = ((ov, g1), w1)"
    by (metis prod.exhaust)
  show ?case
  proof (cases "truthy name")
    case True
    then obtain v where v: "name = Some v" by (cases name) simp_all
    have "processNameIterator_loop os ids j w = ((Some v, Suspended_Yield ids j), w')"
      using lt r True v by (subst processNameIterator_loop.simps) simp
    moreover have "spread os (Suspended_Yield ids j) (acc @ [v]) w' = Some (Inr ((acc @ [v]) @ ns), w'')"
      using Suc.hyps(1)[OF n, where w = w' and acc = "acc @ [v]"] y l
      by (subst spread.simps) (simp add: processNameIterator_next_def)
    ultimately show ?thesis using dr r y True v by simp
  next
    case False
    have "processNameIterator_loop os ids j w = processNameIterator_loop os ids (j + 1) w'"
      using lt r False by (subst processNameIterator_loop.simps) simp
    then show ?thesis
      using Suc.hyps(1)[OF n, where w = w' and acc = acc] y dr r False by simp
  qed
qed

lemma getProcessNameList_eq:
  "getProcessNameList os w =
     (case getProcessIDList os w of
        None \<Rightarrow> None
      | Some (Inl e, w1) \<Rightarrow> Some (Inl e, w1)
      | Some (Inr ids, w1) \<Rightarrow>
          (case processNameIterator_yields os ids w1 of (ns, w') \<Rightarrow> Some (Inr ns, w')))"
proof (cases "getProcessIDList os w")
  case None
  then show ?thesis
    unfolding getProcessNameList_def processNameIterator_def
    by (subst spread.simps) (simp add: processNameIterator_next_def)
next
  case (Some p)
  obtain r w1 where p: "p = (r, w1)" by (cases p)
  show ?thesis
  proof (cases r)
    case (Inl e)
    with Some p show ?thesis
      unfolding getProcessNameList_def processNameIterator_def
      by (subst spread.simps) (simp add: processNameIterator_next_def)
  next
    case (Inr ids)
    obtain ov g1 w2 where l: "processNameIterator_loop os ids 0 w1 = ((ov, g1), w2)"
      by (metis prod.exhaust)
    show ?thesis
      unfolding getProcessNameList_def processNameIterator_def
      using Some p Inr l spread_loop[where os = os and ids = ids and j = 0 and w = w1 and acc = "[]"]
      by (subst spread.simps) (simp add: processNameIterator_next_def)
  qed
qed

lemma check_loop:
  "(case processNameIterator_loop os ids j w of
      ((None, g'), w') \<Rightarrow> Some (Inr False, w')
    | ((Some v, g'), w') \<Rightarrow>
        if v = name then Some (Inr True, w') else checkProcessIsRunning_loop os name g' w') =
   (case first_match os name (drop j ids) w of (b, w') \<Rightarrow> Some (Inr b, w'))"
proof (induction "length ids - j" arbitrary: j w)
  case 0
  then have "length ids \<le> j" by simp
  then show ?case by (simp add: processNameIterator_loop.simps)
next
  case (Suc n)
  then have lt: "j < length ids" and n: "n = length ids - (j + 1)" by simp_all
  have dr: "drop j ids = ids ! j # drop (j + 1) ids"
    using lt by (simp add: Cons_nth_drop_Suc)
  obtain r w' where r: "getProcessName os (ids ! j) w = (r, w')"
    by (metis prod.exhaust)
  obtain ov g1 w1 where l: "processNameIterator_loop os ids (j + 1) w' = ((ov, g1), w1)"
    by (metis prod.exhaust)
  show ?case
  proof (cases "truthy r")
    case True
    then obtain v where v: "r = Some v" by (cases r) simp_all
    have l0: "processNameIterator_loop os ids j w = ((Some v, Suspended_Yield ids j), w')"
      using lt r True v by (subst processNameIterator_loop.simps) simp
    show ?thesis
    proof (cases "v = name")
      case True
      with l0 dr r v \<open>truthy r\<close> show ?thesis by simp
    next
      case False
      have "checkProcessIsRunning_loop os name (Suspended_Yield ids j) w' =
              (case first_match os name (drop (j + 1) ids) w' of (b, w') \<Rightarrow> Some (Inr b, w'))"
        using Suc.hyps(1)[OF n, where w = w'] l
        by (subst checkProcessIsRunning_loop.simps) (simp add: processNameIterator_next_def)
      with False l0 dr r v show ?thesis by simp
    qed
  next
    case False
    have "processNameIterator_loop os ids j w = processNameIterator_loop os ids (j + 1) w'"
      using lt r False by (subst processNameIterator_loop.simps) simp
    then show ?thesis
      using Suc.hyps(1)[OF n, where w = w'] dr r False by simp
  qed
qed

lemma checkProcessIsRunning_eq:
  "checkProcessIsRunning os name w =
     (case getProcessIDList os w of
        None \<Rightarrow> None
      | Some (Inl e, w1) \<Rightarrow> Some (Inl e, w1)
      | Some (Inr ids, w1) \<Rightarrow>
          (case first_match os name ids w1 of (b, w') \<Rightarrow> Some (Inr b, w')))"
proof (cases "getProcessIDList os w")
  case None
  then show ?thesis
    unfolding checkProcessIsRunning_def processNameIterator_def
    by (subst checkProcessIsRunning_loop.simps) (simp add: processNameIterator_next_def)
next
  case (Some p)
  obtain r w1 where p: "p = (r, w1)" by (cases p)
  show ?thesis
  proof (cases r)
    case (Inl e)
    with Some p show ?thesis
      unfolding checkProcessIsRunning_def processNameIterator_def
      by (subst checkProcessIsRunning_loop.simps) (simp add: processNameIterator_next_def)
  next
    case (Inr ids)
    obtain ov g1 w2 where l: "processNameIterator_loop os ids 0 w1 = ((ov, g1), w2)"
      by (metis prod.exhaust)
    show ?thesis
      unfolding checkProcessIsRunning_def processNameIterator_def
      using Some p Inr l check_loop[where os = os and ids = ids and j = 0 and w = w1 and name = name]
      by (subst checkProcessIsRunning_loop.simps) (simp add: processNameIterator_next_def)
  qed
qed

lemma yields_resolve_all:
  "processNameIterator_yields os ids w =
     (map the (filter truthy (fst (resolve_all os ids w))), snd (resolve_all os ids w))"
  by (induction ids arbitrary: w) (auto split: prod.splits)


lemma first_match_yields:
  "fst (first_match os name ids w) \<longleftrightarrow> name \<in> set (fst (processNameIterator_yields os ids w))"
proof (induction ids arbitrary: w)
  case Nil
  show ?case by simp
next
  case (Cons pid pids)
  obtain r w' where r: "getProcessName os pid w = (r, w')" by (metis prod.exhaust)
  obtain ns w'' where y: "processNameIterator_yields os pids w' = (ns, w'')"
    by (metis prod.exhaust)
  from Cons[of w'] y have "fst (first_match os name pids w') \<longleftrightarrow> name \<in> set ns" by simp
  then show ?case using r y by (cases r) auto
qed

lemma first_match_world:
  "snd (first_match os name ids w) =
     snd (resolve_all os
            (take (Suc (length (takeWhile (\<lambda>r. \<not> (truthy r \<and> r = Some name))
                                  (fst (resolve_all os ids w))))) ids) w)"
proof (induction ids arbitrary: w)
  case Nil
  show ?case by simp
next
  case (Cons pid pids)
  obtain r w' where r: "getProcessName os pid w = (r, w')" by (metis prod.exhaust)
  show ?case
  proof (cases "truthy r \<and> r = Some name")
    case True
    then have "r = Some name" and "name \<noteq> []" by auto
    with r show ?thesis by (simp split: prod.splits)
  next
    case False
    with r Cons[of w'] show ?thesis by (auto split: prod.splits)
  qed
qed





section \<open>The example systems, evaluated\<close>



lemmas eval_defs =
  getProcessName_def kernel32_OpenProcess_def psapi_EnumProcessModules_def
  kernel32_K32GetModuleBaseNameA_def readCString_def truthy_pointer_def NUL_def NULL_def
  MAX_PROCESS_NAME_LENGTH_def sizeof_pointer_def utf8_example_def ascii_def

lemma ascii_names_differ:
  "ascii ''alpha.exe'' \<noteq> ascii ''beta.exe''" "ascii ''gamma.exe'' \<noteq> ascii ''alpha.exe''"
  "ascii ''gamma.exe'' \<noteq> ascii ''beta.exe''" "ascii ''alpha.exe'' \<noteq> []" "ascii ''beta.exe'' \<noteq> []"
  by (simp_all add: ascii_def)

lemma os_example_ids:
  "getProcessIDList os_example world0 =
     Some (Inr [10, 20, 30], world0\<lparr>calls := [Call_EnumProcesses 8192]\<rparr>)"
  by (simp add: getProcessIDList_def loop_step probe_0 returned_def requested_def
      retrieveNProcesses_eq os_example_def world0_def QUERY_SIZE_def DWord_size_def)

lemma os_example_10:
  "getProcessName os_example 10 w =
     (Some (ascii ''alpha.exe''),
      w\<lparr>calls := calls w @ [Call_OpenProcess 10, Call_EnumProcessModules 110,
        Call_K32GetModuleBaseNameA 110 111 32], open_handles := 110 # open_handles w\<rparr>)"
  by (simp add: eval_defs os_example_def)

lemma os_example_20:
  "getProcessName os_example 20 w =
     (None, w\<lparr>calls := calls w @ [Call_OpenProcess 20, Call_EnumProcessModules 0]\<rparr>)"
  by (simp add: eval_defs os_example_def)

lemma os_example_30:
  "getProcessName os_example 30 w =
     (Some (ascii ''beta.exe''),
      w\<lparr>calls := calls w @ [Call_OpenProcess 30, Call_EnumProcessModules 130,
        Call_K32GetModuleBaseNameA 130 131 32], open_handles := 130 # open_handles w\<rparr>)"
  by (simp add: eval_defs os_example_def)

lemma os_example_names:
  "getProcessNameList os_example world0 =
     Some (Inr [ascii ''alpha.exe'', ascii ''beta.exe''],
           world0\<lparr>calls := [Call_EnumProcesses 8192,
                     Call_OpenProcess 10, Call_EnumProcessModules 110,
                     Call_K32GetModuleBaseNameA 110 111 32,
                     Call_OpenProcess 20, Call_EnumProcessModules 0,
                     Call_OpenProcess 30, Call_EnumProcessModules 130,
                     Call_K32GetModuleBaseNameA 130 131 32],
                   open_handles := [130, 110]\<rparr>)"
  using os_example_ids
  by (simp add: getProcessNameList_eq os_example_10 os_example_20 os_example_30 world0_def
      ascii_names_differ)


lemma os_lenient_20:
  "getProcessName os_lenient 20 w =
     (Some [],
      w\<lparr>calls := calls w @ [Call_OpenProcess 20, Call_EnumProcessModules 0,
        Call_K32GetModuleBaseNameA 0 1 32]\<rparr>)"
  by (simp add: eval_defs os_lenient_def os_example_def)


lemma os_blank_ids:
  "getProcessIDList os_blank world0 =
     Some (Inr [60], world0\<lparr>calls := [Call_EnumProcesses 8192]\<rparr>)"
  by (simp add: getProcessIDList_def loop_step probe_0 returned_def requested_def
      retrieveNProcesses_eq os_blank_def os_example_def world0_def QUERY_SIZE_def DWord_size_def)

lemma os_blank_60:
  "getProcessName os_blank 60 w =
     (Some [], w\<lparr>calls := calls w @ [Call_OpenProcess 60, Call_EnumProcessModules 160,
        Call_K32GetModuleBaseNameA 160 161 32], open_handles := 160 # open_handles w\<rparr>)"
  by (simp add: eval_defs os_blank_def os_example_def)

lemma os_full_returned:
  "DWord_size * requested e i < 2 ^ 32 \<Longrightarrow> returned os_full e w i = Some (requested e i)"
  using unat_DWord[of "DWord_size * requested e i"]
  by (simp add: returned_eq os_full_def os_example_def) (simp add: DWord_size_def)

lemma os_full_never_short: "returned os_full e w i = Some n \<Longrightarrow> n = requested e i"
  using os_full_returned[of e i w] by (simp add: returned_eq)

lemma os_full_calls:
  "calls (world_before os_full (QUERY_SIZE div 2) world0 19) =
     map (\<lambda>i. Call_EnumProcesses (word_of_nat (2 ^ (i + 13)))) [0..<19]"
proof -
  have "\<forall>i<19. returned os_full (QUERY_SIZE div 2) world0 i = Some (requested (QUERY_SIZE div 2) i)"
    using requested_fits by (simp add: os_full_returned)
  from world_before_calls[OF this] show ?thesis
    by (simp only: DWord_size_requested) (simp add: world0_def)
qed

lemma os_growing_round:
  assumes "os_state w < t" and "DWord_size * n < 2 ^ 32"
  shows "retrieveNProcesses (os_growing t) n w =
           (Inr (replicate n 4, n),
            w\<lparr>os_state := Suc (os_state w),
              calls := calls w @ [Call_EnumProcesses (word_of_nat (DWord_size * n))]\<rparr>)"
proof -
  from unat_DWord[OF assms(2)]
  have "unat (word_of_nat (DWord_size * n) :: DWord) div DWord_size = n"
    by (simp add: DWord_size_def)
  with assms show ?thesis
    by (simp add: retrieveNProcesses_eq os_growing_def Let_def)
qed

lemma os_growing_state:
  "i \<le> t \<Longrightarrow> i \<le> 19 \<Longrightarrow>
   os_state (world_before (os_growing t) (QUERY_SIZE div 2) world1 i) = i"
proof (induction i)
  case 0
  show ?case by (simp add: world1_def)
next
  case (Suc i)
  then have s: "os_state (world_before (os_growing t) (QUERY_SIZE div 2) world1 i) = i"
    and lt: "i < t" and "i < 19"
    by simp_all
  then have "DWord_size * requested (QUERY_SIZE div 2) i < 2 ^ 32"
    by (simp only: requested_fits)
  from os_growing_round[OF _ this, of "world_before (os_growing t) (QUERY_SIZE div 2) world1 i" t]
    s lt
  show ?case by simp
qed

lemma os_growing_full:
  assumes "i < t" and "i < 19"
  shows "returned (os_growing t) (QUERY_SIZE div 2) world1 i = Some (requested (QUERY_SIZE div 2) i)"
proof -
  from assms have s: "os_state (world_before (os_growing t) (QUERY_SIZE div 2) world1 i) = i"
    by (simp add: os_growing_state)
  from assms(2) have "DWord_size * requested (QUERY_SIZE div 2) i < 2 ^ 32"
    by (simp only: requested_fits)
  from os_growing_round[OF _ this, of "world_before (os_growing t) (QUERY_SIZE div 2) world1 i" t]
    s assms(1)
  show ?thesis by (simp add: returned_def probe_def)
qed

lemma os_growing_short:
  assumes "t < 19"
  shows "returned (os_growing t) (QUERY_SIZE div 2) world1 t = Some 3"
proof -
  from assms have s: "os_state (world_before (os_growing t) (QUERY_SIZE div 2) world1 t) = t"
    by (simp add: os_growing_state)
  from assms have "DWord_size * requested (QUERY_SIZE div 2) t < 2 ^ 32"
    by (simp only: requested_fits)
  moreover have "3 \<le> requested (QUERY_SIZE div 2) t"
  proof -
    have "(1::nat) \<le> 2 ^ t" by simp
    then have "3 \<le> 2048 * (2::nat) ^ t" by linarith
    then show ?thesis by (simp add: requested_def QUERY_SIZE_def)
  qed
  ultimately show ?thesis
    using s by (simp add: returned_eq os_growing_def)
qed

lemma os_growing_world_1:
  "world_before (os_growing 1) (QUERY_SIZE div 2) world1 (Suc 0) =
     \<lparr>os_state = 1, calls = [Call_EnumProcesses 8192], open_handles = []\<rparr>"
  by (simp add: requested_def os_growing_round world1_def QUERY_SIZE_def DWord_size_def)

lemma os_growing_world_2:
  "world_before (os_growing 1) (QUERY_SIZE div 2) world1 (Suc (Suc 0)) =
     \<lparr>os_state = 2, calls = [Call_EnumProcesses 8192, Call_EnumProcesses 16384],
      open_handles = []\<rparr>"
  unfolding world_before.simps(2)[of _ _ _ "Suc 0"] os_growing_world_1
  by (simp add: requested_def retrieveNProcesses_eq os_growing_def QUERY_SIZE_def DWord_size_def)

section \<open>Properties of the specification\<close>

subsection \<open>C1: capacity probing\<close>

text \<open>
  Claim C1, as the code has it.  \<open>getProcessIDList\<close> asks for 2048 entries and doubles the
  request as long as the number of entries returned is the number requested.  It returns a
  list exactly when some round returns fewer entries than requested, and the list is that
  round's array cut to the entries returned.  When the first \<open>k\<close> rounds return as many
  entries as requested and the next one fewer, then \<open>k\<close> is below 19, the result is the list
  the system provided in that round, in its order, and exactly \<open>k + 1\<close> calls of
  \<open>EnumProcesses\<close> were made, for the capacities \<open>2048 * 2 ^ i\<close>.  A round returns a number of
  entries only if its array is allocated and its size in bytes is in the range of a \<open>DWord\<close>,
  which it is in the rounds before round 19; the number is then the number of identifiers
  the system has to report, cut at the capacity.
\<close>

theorem getProcessIDList_probing:
  "(getProcessIDList os w = Some (Inr ids, w') \<longleftrightarrow>
      (\<exists>j n. (\<forall>i<j. returned os (QUERY_SIZE div 2) w i = Some (requested (QUERY_SIZE div 2) i)) \<and>
           returned os (QUERY_SIZE div 2) w j = Some n \<and> n < requested (QUERY_SIZE div 2) j \<and>
           outcome (probe os (QUERY_SIZE div 2) w j) = Inr ids \<and>
           w' = world_before os (QUERY_SIZE div 2) w (Suc j))) \<and>
   ((\<forall>i<k. returned os (QUERY_SIZE div 2) w i = Some (requested (QUERY_SIZE div 2) i)) \<and>
    returned os (QUERY_SIZE div 2) w k = Some n \<and> n < requested (QUERY_SIZE div 2) k \<longrightarrow>
      k < 19 \<and>
      getProcessIDList os w =
        Some (Inr (fst (EnumProcesses os (word_of_nat (DWord_size * requested (QUERY_SIZE div 2) k))
                          (os_state (world_before os (QUERY_SIZE div 2) w k)))),
              world_before os (QUERY_SIZE div 2) w (Suc k)) \<and>
      calls (world_before os (QUERY_SIZE div 2) w (Suc k)) =
        calls w @ map (\<lambda>i. Call_EnumProcesses (word_of_nat (DWord_size * (QUERY_SIZE * 2 ^ i))))
                    [0..<Suc k]) \<and>
   (returned os (QUERY_SIZE div 2) w i = Some m \<longleftrightarrow>
      allocates os (DWord_size * requested (QUERY_SIZE div 2) i)
        (os_state (world_before os (QUERY_SIZE div 2) w i)) \<and>
      i < 19 \<and>
      m = length (take (requested (QUERY_SIZE div 2) i)
            (fst (EnumProcesses os (word_of_nat (DWord_size * requested (QUERY_SIZE div 2) i))
                   (os_state (world_before os (QUERY_SIZE div 2) w i))))))"
proof (intro conjI iffI impI)
  let ?e = "QUERY_SIZE div 2"
  {
    assume r: "getProcessIDList os w = Some (Inr ids, w')"
    from getProcessIDList_stops[of os w] r obtain j where
      j: "\<forall>i<j. returned os ?e w i = Some (requested ?e i)"
         "returned os ?e w j \<noteq> Some (requested ?e j)"
         "outcome (probe os ?e w j) = Inr ids" "w' = world_before os ?e w (Suc j)"
      by auto
    from j(3) obtain a n where p: "probe os ?e w j = Inr (a, n)"
      by (cases "probe os ?e w j") auto
    then have n: "returned os ?e w j = Some n" by (simp add: returned_def)
    with j(2) returned_le[OF n] have "n < requested ?e j" by simp
    with j(1,3,4) n
    show "\<exists>j n. (\<forall>i<j. returned os ?e w i = Some (requested ?e i)) \<and>
           returned os ?e w j = Some n \<and> n < requested ?e j \<and>
           outcome (probe os ?e w j) = Inr ids \<and> w' = world_before os ?e w (Suc j)"
      by blast
  }
  {
    assume "\<exists>j n. (\<forall>i<j. returned os ?e w i = Some (requested ?e i)) \<and>
           returned os ?e w j = Some n \<and> n < requested ?e j \<and>
           outcome (probe os ?e w j) = Inr ids \<and> w' = world_before os ?e w (Suc j)"
    then obtain j n where j: "\<forall>i<j. returned os ?e w i = Some (requested ?e i)"
        "returned os ?e w j = Some n" "n < requested ?e j"
        "outcome (probe os ?e w j) = Inr ids" "w' = world_before os ?e w (Suc j)"
      by blast
    from j(2,3) have "returned os ?e w j \<noteq> Some (requested ?e j)" by simp
    from loop_stops[OF j(1) this] j(4,5)
    show "getProcessIDList os w = Some (Inr ids, w')" by (simp add: getProcessIDList_def)
  }
  {
    assume k: "(\<forall>i<k. returned os ?e w i = Some (requested ?e i)) \<and>
               returned os ?e w k = Some n \<and> n < requested ?e k"
    then have full: "\<forall>i<k. returned os ?e w i = Some (requested ?e i)"
      and n: "returned os ?e w k = Some n" and short: "n < requested ?e k"
      by simp_all
    from n show "k < 19" by (simp add: returned_eq requested_fits)
    from n short have "returned os ?e w k \<noteq> Some (requested ?e k)" by simp
    from loop_stops[OF full this] probe_short[OF n short]
    show "getProcessIDList os w =
        Some (Inr (fst (EnumProcesses os (word_of_nat (DWord_size * requested ?e k))
                          (os_state (world_before os ?e w k)))),
              world_before os ?e w (Suc k))"
      by (simp add: getProcessIDList_def)
    from world_before_calls_Suc[OF full n]
    show "calls (world_before os ?e w (Suc k)) =
        calls w @ map (\<lambda>i. Call_EnumProcesses (word_of_nat (DWord_size * (QUERY_SIZE * 2 ^ i))))
                    [0..<Suc k]"
      by (simp only: requested_QUERY_SIZE)
  }
  {
    assume "returned os ?e w i = Some m"
    then show "allocates os (DWord_size * requested ?e i) (os_state (world_before os ?e w i))"
      and "i < 19"
      and "m = length (take (requested ?e i)
            (fst (EnumProcesses os (word_of_nat (DWord_size * requested ?e i))
                   (os_state (world_before os ?e w i)))))"
      by (simp_all add: returned_eq requested_fits)
  }
  {
    assume "allocates os (DWord_size * requested ?e i) (os_state (world_before os ?e w i)) \<and>
      i < 19 \<and>
      m = length (take (requested ?e i)
            (fst (EnumProcesses os (word_of_nat (DWord_size * requested ?e i))
                   (os_state (world_before os ?e w i)))))"
    then show "returned os ?e w i = Some m"
      by (simp add: returned_eq requested_fits)
  }
qed

text \<open>
  One full round, then three processes: two calls, for 2048 and for 4096 entries of 4 bytes.
\<close>

theorem getProcessIDList_probing_witness:
  "returned (os_growing 1) (QUERY_SIZE div 2) world1 0 = Some (requested (QUERY_SIZE div 2) 0) \<and>
   returned (os_growing 1) (QUERY_SIZE div 2) world1 (Suc 0) = Some 3 \<and>
   3 < requested (QUERY_SIZE div 2) (Suc 0) \<and>
   getProcessIDList (os_growing 1) world1 =
     Some (Inr [10, 20, 30],
           \<lparr>os_state = 2, calls = [Call_EnumProcesses 8192, Call_EnumProcesses 16384],
            open_handles = []\<rparr>)"
proof -
  have first: "returned (os_growing 1) (QUERY_SIZE div 2) world1 0 =
                 Some (requested (QUERY_SIZE div 2) 0)"
    by (simp add: os_growing_full)
  then have full: "\<forall>i<Suc 0. returned (os_growing 1) (QUERY_SIZE div 2) world1 i =
                Some (requested (QUERY_SIZE div 2) i)"
    by simp
  have second: "returned (os_growing 1) (QUERY_SIZE div 2) world1 (Suc 0) = Some 3"
    using os_growing_short[of 1] by simp
  have short: "3 < requested (QUERY_SIZE div 2) (Suc 0)"
    by (simp add: requested_def QUERY_SIZE_def)
  have "getProcessIDList (os_growing 1) world1 =
        Some (Inr (fst (EnumProcesses (os_growing 1)
                          (word_of_nat (DWord_size * requested (QUERY_SIZE div 2) (Suc 0)))
                          (os_state (world_before (os_growing 1) (QUERY_SIZE div 2) world1 (Suc 0))))),
              world_before (os_growing 1) (QUERY_SIZE div 2) world1 (Suc (Suc 0)))"
    using getProcessIDList_probing[of "os_growing 1" world1 _ _ "Suc 0" 3] full second short
    by blast
  then have "getProcessIDList (os_growing 1) world1 =
     Some (Inr [10, 20, 30],
           \<lparr>os_state = 2, calls = [Call_EnumProcesses 8192, Call_EnumProcesses 16384],
            open_handles = []\<rparr>)"
    unfolding os_growing_world_1 os_growing_world_2 by (simp add: os_growing_def)
  with first second short show ?thesis by blast
qed

text \<open>
  As stated, for every system and every \<open>k\<close>, the claim fails at \<open>k = 19\<close>.  The system fills
  the buffer in its first 19 enumerations, whose capacities are \<open>2048 * 2 ^ i\<close>, and after
  them it is in the state where it reports three processes, whatever size it is asked with.
  Round 19 has a size of \<open>2 ^ 32\<close> bytes, which is no \<open>DWord\<close>: \<open>getProcessIDList\<close> raises
  after 19 calls and returns no list.
\<close>

theorem getProcessIDList_probing_counterexample:
  "map (returned (os_growing 19) (QUERY_SIZE div 2) world1) [0..<19] =
     map (\<lambda>i. Some (QUERY_SIZE * 2 ^ i)) [0..<19] \<and>
   os_state (world_before (os_growing 19) (QUERY_SIZE div 2) world1 19) = 19 \<and>
   (\<lambda>cb. fst (EnumProcesses (os_growing 19) cb 19)) = (\<lambda>cb. [10, 20, 30]) \<and>
   map_option fst (getProcessIDList (os_growing 19) world1) =
     Some (Inl (Out_of_bounds 4294967296)) \<and>
   map_option (\<lambda>r. length (calls (snd r))) (getProcessIDList (os_growing 19) world1) = Some 19"
proof -
  let ?e = "QUERY_SIZE div 2"
  have full: "\<forall>i<19. returned (os_growing 19) ?e world1 i = Some (requested ?e i)"
    by (simp add: os_growing_full)
  then have 1: "map (returned (os_growing 19) ?e world1) [0..<19] =
                  map (\<lambda>i. Some (QUERY_SIZE * 2 ^ i)) [0..<19]"
    by (simp add: requested_QUERY_SIZE)
  have 2: "os_state (world_before (os_growing 19) ?e world1 19) = 19"
    by (simp add: os_growing_state)
  have 3: "(\<lambda>cb. fst (EnumProcesses (os_growing 19) cb 19)) = (\<lambda>cb. [10, 20, 30])"
    by (simp add: os_growing_def)
  have "allocates (os_growing 19) 4294967296 (os_state (world_before (os_growing 19) ?e world1 19))"
    by (simp add: os_growing_def)
  from getProcessIDList_overflow[OF full this]
  have r: "getProcessIDList (os_growing 19) world1 =
             Some (Inl (Out_of_bounds 4294967296), world_before (os_growing 19) ?e world1 19)" .
  have "calls world1 = []" by (simp add: world1_def)
  with world_before_calls[OF full]
  have "length (calls (world_before (os_growing 19) ?e world1 19)) = 19"
    by simp
  with r 1 2 3 show ?thesis by simp
qed

subsection \<open>C2: the sequence drops what did not resolve\<close>

text \<open>
  Claim C2, as the code has it.  For an enumeration pass with the identifiers \<open>ids\<close>, the
  generator yields the names of the identifiers that resolve to a present and non-empty
  name, in the order of enumeration, and never more names than identifiers.
\<close>

theorem processNameIterator_drops_absences:
  assumes "getProcessIDList os w = Some (Inr ids, w1)"
  shows "spread os processNameIterator [] w =
           Some (Inr (map the (filter truthy (fst (resolve_all os ids w1)))),
                 snd (resolve_all os ids w1)) \<and>
         length (map the (filter truthy (fst (resolve_all os ids w1)))) \<le> length ids"
proof -
  have "length (filter truthy (fst (resolve_all os ids w1))) \<le> length ids"
    using length_filter_le[of truthy "fst (resolve_all os ids w1)"]
    by (simp add: resolve_all_length)
  then show ?thesis
    using assms getProcessNameList_eq[of os w]
    by (simp add: getProcessNameList_def yields_resolve_all)
qed

text \<open>The scenario: three identifiers, the second one absent, two names.\<close>

theorem processNameIterator_drops_absences_witness:
  "getProcessIDList os_example world0 =
     Some (Inr [10, 20, 30], world0\<lparr>calls := [Call_EnumProcesses 8192]\<rparr>) \<and>
   map_option fst (spread os_example processNameIterator [] world0) =
     Some (Inr [ascii ''alpha.exe'', ascii ''beta.exe'']) \<and>
   fst (resolve_all os_example [10, 20, 30] (world0\<lparr>calls := [Call_EnumProcesses 8192]\<rparr>)) =
     [Some (ascii ''alpha.exe''), None, Some (ascii ''beta.exe'')]"
  using processNameIterator_drops_absences[OF os_example_ids]
  by (simp add: os_example_ids os_example_10 os_example_20 os_example_30 ascii_names_differ)

text \<open>
  As stated, with "present" for any name that \<open>getProcessName\<close> returns, the claim fails:
  the one process of \<open>os_blank\<close> resolves to the empty string, which is a present name, and
  the generator yields nothing.
\<close>

theorem processNameIterator_present_counterexample:
  "getProcessIDList os_blank world0 =
     Some (Inr [60], world0\<lparr>calls := [Call_EnumProcesses 8192]\<rparr>) \<and>
   length (filter (\<lambda>r. r \<noteq> None)
     (fst (resolve_all os_blank [60] (world0\<lparr>calls := [Call_EnumProcesses 8192]\<rparr>)))) = 1 \<and>
   map_option fst (spread os_blank processNameIterator [] world0) = Some (Inr [])"
  using getProcessNameList_eq[of os_blank world0]
  by (simp add: os_blank_ids os_blank_60 getProcessNameList_def)

subsection \<open>C3: membership, and no resolution after the first match\<close>

text \<open>
  Claim C3.  When the enumeration returns, \<open>checkProcessIsRunning\<close> returns, its result is
  \<open>true\<close> if and only if the name is among the names the generator yields, and
  \<open>getProcessName\<close> was called for the identifiers up to and including the first one that
  yields the name (for all of them when there is none), and for no other.
\<close>

theorem checkProcessIsRunning_short_circuit:
  assumes "getProcessIDList os w = Some (Inr ids, w1)"
  shows "\<exists>b w' names w''.
           checkProcessIsRunning os name w = Some (Inr b, w') \<and>
           getProcessNameList os w = Some (Inr names, w'') \<and>
           (b \<longleftrightarrow> name \<in> set names) \<and>
           resolver_calls w' = resolver_calls w @
             take (Suc (length (takeWhile (\<lambda>r. \<not> (truthy r \<and> r = Some name))
                                  (fst (resolve_all os ids w1))))) ids"
proof -
  let ?n = "Suc (length (takeWhile (\<lambda>r. \<not> (truthy r \<and> r = Some name))
                           (fst (resolve_all os ids w1))))"
  have c: "checkProcessIsRunning os name w =
             Some (Inr (fst (first_match os name ids w1)), snd (first_match os name ids w1))"
    using assms by (simp add: checkProcessIsRunning_eq case_prod_beta)
  have l: "getProcessNameList os w =
             Some (Inr (fst (processNameIterator_yields os ids w1)),
                   snd (processNameIterator_yields os ids w1))"
    using assms by (simp add: getProcessNameList_eq case_prod_beta)
  have "resolver_calls (snd (first_match os name ids w1)) = resolver_calls w1 @ take ?n ids"
    by (simp only: first_match_world resolve_all_resolver_calls)
  moreover have "resolver_calls w1 = resolver_calls w"
    using assms by (rule getProcessIDList_resolver_calls)
  ultimately have "resolver_calls (snd (first_match os name ids w1)) =
                     resolver_calls w @ take ?n ids"
    by simp
  with c l first_match_yields[of os name ids w1] show ?thesis by blast
qed

text \<open>
  The scenario: \<open>alpha.exe\<close> is found after one resolution; \<open>gamma.exe\<close> is not found, after
  three.
\<close>

theorem checkProcessIsRunning_short_circuit_witness:
  "getProcessIDList os_example world0 =
     Some (Inr [10, 20, 30], world0\<lparr>calls := [Call_EnumProcesses 8192]\<rparr>) \<and>
   (\<exists>w'. checkProcessIsRunning os_example (ascii ''alpha.exe'') world0 = Some (Inr True, w') \<and>
         resolver_calls w' = [10]) \<and>
   (\<exists>w'. checkProcessIsRunning os_example (ascii ''gamma.exe'') world0 = Some (Inr False, w') \<and>
         resolver_calls w' = [10, 20, 30])"
proof -
  let ?w1 = "world0\<lparr>calls := [Call_EnumProcesses 8192]\<rparr>"
  have rs: "fst (resolve_all os_example [10, 20, 30] ?w1) =
              [Some (ascii ''alpha.exe''), None, Some (ascii ''beta.exe'')]"
    by (simp add: os_example_10 os_example_20 os_example_30)
  have r0: "resolver_calls world0 = []"
    by (simp add: resolver_calls_def world0_def)
  from checkProcessIsRunning_short_circuit[OF os_example_ids, of "ascii ''alpha.exe''"]
  obtain b w' names w'' where a:
    "checkProcessIsRunning os_example (ascii ''alpha.exe'') world0 = Some (Inr b, w')"
    "getProcessNameList os_example world0 = Some (Inr names, w'')"
    "b \<longleftrightarrow> ascii ''alpha.exe'' \<in> set names"
    "resolver_calls w' = resolver_calls world0 @
       take (Suc (length (takeWhile (\<lambda>r. \<not> (truthy r \<and> r = Some (ascii ''alpha.exe'')))
                            (fst (resolve_all os_example [10, 20, 30] ?w1))))) [10, 20, 30]"
    by blast
  from a(2,3) have "b" by (auto simp add: os_example_names)
  moreover from a(4) have "resolver_calls w' = [10]"
    unfolding rs r0 by (simp add: ascii_names_differ)
  ultimately have alpha: "\<exists>w'. checkProcessIsRunning os_example (ascii ''alpha.exe'') world0 =
      Some (Inr True, w') \<and> resolver_calls w' = [10]"
    using a(1) by auto
  from checkProcessIsRunning_short_circuit[OF os_example_ids, of "ascii ''gamma.exe''"]
  obtain c v' names' v'' where g:
    "checkProcessIsRunning os_example (ascii ''gamma.exe'') world0 = Some (Inr c, v')"
    "getProcessNameList os_example world0 = Some (Inr names', v'')"
    "c \<longleftrightarrow> ascii ''gamma.exe'' \<in> set names'"
    "resolver_calls v' = resolver_calls world0 @
       take (Suc (length (takeWhile (\<lambda>r. \<not> (truthy r \<and> r = Some (ascii ''gamma.exe'')))
                            (fst (resolve_all os_example [10, 20, 30] ?w1))))) [10, 20, 30]"
    by blast
  from g(2,3) have "\<not> c" by (auto simp add: os_example_names ascii_names_differ)
  moreover from g(4) have "resolver_calls v' = [10, 20, 30]"
    unfolding rs r0 using ascii_names_differ(2,3) by (simp add: eq_commute)
  ultimately have "\<exists>w'. checkProcessIsRunning os_example (ascii ''gamma.exe'') world0 =
      Some (Inr False, w') \<and> resolver_calls w' = [10, 20, 30]"
    using g(1) by auto
  with alpha os_example_ids show ?thesis by blast
qed

subsection \<open>C4: a process that cannot be opened\<close>

text \<open>
  Claim C4 says that \<open>getProcessName\<close> returns \<open>undefined\<close> when \<open>OpenProcess\<close> fails.  The
  code does not: its test \<open>if (hProcess)\<close> holds for the \<open>NULL\<close> handle too, so it goes on to
  \<open>EnumProcessModules\<close> with that handle.  On the test double that lists modules for any
  handle, process 20, which cannot be opened, resolves to the empty string after three
  native calls.  On the system of the scenario it resolves to \<open>undefined\<close>, but only because
  listing the modules of the \<open>NULL\<close> handle fails there.
\<close>

theorem getProcessName_open_failure:
  "OpenProcess os_lenient (PROCESS_QUERY_INFORMATION OR PROCESS_VM_READ) 0 20 (os_state world0)
     = (NULL, ()) \<and>
   getProcessName os_lenient 20 world0 =
     (Some [], world0\<lparr>calls := [Call_OpenProcess 20, Call_EnumProcessModules NULL,
                                Call_K32GetModuleBaseNameA NULL 1 32]\<rparr>) \<and>
   OpenProcess os_example (PROCESS_QUERY_INFORMATION OR PROCESS_VM_READ) 0 20 (os_state world0)
     = (NULL, ()) \<and>
   getProcessName os_example 20 world0 =
     (None, world0\<lparr>calls := [Call_OpenProcess 20, Call_EnumProcessModules NULL]\<rparr>)"
  by (simp add: os_lenient_20 os_example_20 world0_def)
     (simp add: os_lenient_def os_example_def NULL_def)

subsection \<open>C5: the process handle\<close>

text \<open>
  Claim C5, as the code has it.  \<open>getProcessName\<close> never closes a handle.  When
  \<open>OpenProcess\<close> fails there is no handle and the open handles are those of before;
  otherwise the handle from \<open>OpenProcess\<close> is still open when the call returns, whether the
  modules were listed or not.
\<close>

theorem getProcessName_keeps_handle:
  "open_handles (snd (getProcessName os pid w)) =
     (let hProcess = fst (OpenProcess os (PROCESS_QUERY_INFORMATION OR PROCESS_VM_READ) 0 pid
                            (os_state w))
      in if hProcess = NULL then open_handles w else hProcess # open_handles w)"
  by (cases rule: getProcessName_cases[of os pid w]) simp_all

text \<open>Process 20 cannot be opened; process 40 has no module list; process 30 has a name.\<close>

theorem getProcessName_keeps_handle_witness:
  "open_handles (snd (getProcessName os_example 20 world0)) = [] \<and>
   open_handles (snd (getProcessName os_example 40 world0)) = [140] \<and>
   open_handles (snd (getProcessName os_example 30 world0)) = [130]"
  using getProcessName_keeps_handle[of os_example 20 world0]
    getProcessName_keeps_handle[of os_example 40 world0]
    getProcessName_keeps_handle[of os_example 30 world0]
  by (simp add: os_example_def world0_def NULL_def)

text \<open>As stated, the claim fails: after resolving process 10 its handle is open.\<close>

theorem getProcessName_release_counterexample:
  "open_handles world0 = [] \<and> open_handles (snd (getProcessName os_example 10 world0)) = [110]"
  by (simp add: os_example_10 world0_def)

subsection \<open>C6: the probing loop is bounded\<close>

text \<open>
  Claim C6.  \<open>getProcessIDList\<close> always ends, with a list or with an error, after at most
  19 calls of \<open>EnumProcesses\<close>.  When the system never returns fewer entries than requested,
  it ends with an error, and the error reaches the caller of \<open>getProcessNameList\<close> and of
  \<open>checkProcessIsRunning\<close>.
\<close>

theorem getProcessIDList_bounded:
  "(\<exists>r w'. getProcessIDList os w = Some (r, w') \<and> length (calls w') \<le> length (calls w) + 19) \<and>
   ((\<forall>i n. returned os (QUERY_SIZE div 2) w i = Some n \<longrightarrow> n = requested (QUERY_SIZE div 2) i) \<longrightarrow>
      (\<exists>err w'. getProcessIDList os w = Some (Inl err, w') \<and>
                getProcessNameList os w = Some (Inl err, w') \<and>
                checkProcessIsRunning os name w = Some (Inl err, w')))"
proof (intro conjI impI)
  let ?e = "QUERY_SIZE div 2"
  from getProcessIDList_stops[of os w] obtain k where
    k: "returned os ?e w k \<noteq> Some (requested ?e k)"
       "getProcessIDList os w = Some (outcome (probe os ?e w k), world_before os ?e w (Suc k))"
    by blast
  from k(2) getProcessIDList_calls_le[OF k(2)]
  show "\<exists>r w'. getProcessIDList os w = Some (r, w') \<and> length (calls w') \<le> length (calls w) + 19"
    by blast
  assume never_short: "\<forall>i n. returned os ?e w i = Some n \<longrightarrow> n = requested ?e i"
  with k(1) have "returned os ?e w k = None" by (cases "returned os ?e w k") auto
  then obtain err where "probe os ?e w k = Inl err"
    by (auto simp add: returned_def split: sum.splits)
  with k(2) have "getProcessIDList os w = Some (Inl err, world_before os ?e w (Suc k))" by simp
  then show "\<exists>err w'. getProcessIDList os w = Some (Inl err, w') \<and>
                getProcessNameList os w = Some (Inl err, w') \<and>
                checkProcessIsRunning os name w = Some (Inl err, w')"
    by (simp add: getProcessNameList_eq checkProcessIsRunning_eq)
qed

text \<open>
  A system that fills every buffer: after 19 calls, for \<open>2 ^ 13\<close> to \<open>2 ^ 31\<close> bytes, the
  size \<open>2 ^ 32\<close> of round 19 is refused.
\<close>

theorem getProcessIDList_bounded_witness:
  "\<exists>w'. getProcessIDList os_full world0 = Some (Inl (Out_of_bounds 4294967296), w') \<and>
        getProcessNameList os_full world0 = Some (Inl (Out_of_bounds 4294967296), w') \<and>
        checkProcessIsRunning os_full (ascii ''alpha.exe'') world0 =
          Some (Inl (Out_of_bounds 4294967296), w') \<and>
        calls w' = map (\<lambda>i. Call_EnumProcesses (word_of_nat (2 ^ (i + 13)))) [0..<19]"
proof -
  let ?e = "QUERY_SIZE div 2"
  have "\<forall>i n. returned os_full ?e world0 i = Some n \<longrightarrow> n = requested ?e i"
    using os_full_never_short by blast
  with getProcessIDList_bounded[of os_full world0 "ascii ''alpha.exe''"] obtain err w' where
    e: "getProcessIDList os_full world0 = Some (Inl err, w')"
       "getProcessNameList os_full world0 = Some (Inl err, w')"
       "checkProcessIsRunning os_full (ascii ''alpha.exe'') world0 = Some (Inl err, w')"
    by blast
  have "\<forall>i<19. returned os_full ?e world0 i = Some (requested ?e i)"
    using requested_fits by (simp add: os_full_returned)
  moreover have "allocates os_full 4294967296 (os_state (world_before os_full ?e world0 19))"
    by (simp add: os_full_def os_example_def)
  ultimately have "getProcessIDList os_full world0 =
      Some (Inl (Out_of_bounds 4294967296), world_before os_full ?e world0 19)"
    by (rule getProcessIDList_overflow)
  with e(1) have "err = Out_of_bounds 4294967296" and "w' = world_before os_full ?e world0 19"
    by simp_all
  with e os_full_calls show ?thesis by simp
qed

subsection \<open>C7: the name is read from a buffer of 32 bytes\<close>




subsection \<open>C8: the list is the materialized generator\<close>

text \<open>
  Claim C8.  \<open>getProcessNameList\<close>, which drains the generator request by request, returns
  what materializing \<open>processNameIterator\<close> from start to exhaustion gives: the same names in
  the same order, in the same world, and the same error when the enumeration raises one.
\<close>

theorem getProcessNameList_materializes:
  "getProcessNameList os w = materialize os w"
  by (simp add: getProcessNameList_eq materialize_def)

text \<open>The scenario: two names, after nine native calls.\<close>

theorem getProcessNameList_materializes_witness:
  "materialize os_example world0 =
     Some (Inr [ascii ''alpha.exe'', ascii ''beta.exe''],
           world0\<lparr>calls := [Call_EnumProcesses 8192,
                     Call_OpenProcess 10, Call_EnumProcessModules 110,
                     Call_K32GetModuleBaseNameA 110 111 32,
                     Call_OpenProcess 20, Call_EnumProcessModules 0,
                     Call_OpenProcess 30, Call_EnumProcessModules 130,
                     Call_K32GetModuleBaseNameA 130 131 32],
                   open_handles := [130, 110]\<rparr>)"
  using getProcessNameList_materializes[of os_example world0] by (simp add: os_example_names)

subsection \<open>C9: restartability\<close>



subsection \<open>C10: no empty name\<close>



end
